theory Spec2Isabelle
  imports Complex_Main "HOL-Library.Word" "HOL-Library.Multiset"
begin

unbundle bit_operations_syntax

section \<open>Data model (types.ts)\<close>

text \<open>
  A JavaScript \<open>number\<close> that carries a coordinate is modelled as a \<open>real\<close>
  (exact arithmetic on finite values); numbers that are integers by construction
  (results of \<open>Math.round\<close>, counters) are \<open>int\<close> or \<open>nat\<close>.
  The optional fields of \<open>Stitch\<close> are options.
\<close>

record point =
  px :: real
  py :: real

datatype stitchKind = KStitch | KJump | KColorChange | KEnd | KTrim

record stitch = point +
  stype :: stitchKind
  colorIndex :: "nat option"
  hexColor :: "string option"
  isStructure :: "bool option"

type_synonym byte = "8 word"


datatype designStyle = Vintage | PatchLine | PatchFill

datatype stitchType = Running | Satin | Tatami

record processingConfig =
  designStyle :: designStyle
  widthMm :: real
  stitchType :: stitchType
  densityMm :: real
  satinColumnWidthMm :: real
  pullCompensationMm :: real
  enableUnderlay :: bool
  tatamiAngle :: real
  maxStitchLengthMm :: real
  minStitchLengthMm :: real
  trimJumpDistanceMm :: real
  colorCount :: int

text \<open>\<open>VectorLayer\<close>, fields \<open>color\<close> and \<open>paths\<close>.\<close>

record vectorLayer =
  layerColor :: string
  layerPaths :: "point list list"

text \<open>\<open>Math.round\<close>: the nearest integer, halves rounded towards plus infinity.\<close>

definition jsRound :: "real \<Rightarrow> int" where
  "jsRound v = \<lfloor>v + 1 / 2\<rfloor>"

section \<open>Geometry kernel\<close>

text \<open>The helpers work on anything that has the two coordinates, so they take a
  \<open>Stitch\<close> where the source passes one as a \<open>Point\<close>.\<close>

definition mkPoint :: "real \<Rightarrow> real \<Rightarrow> point" where
  "mkPoint a b = \<lparr>px = a, py = b\<rparr>"

definition dist_pt :: "'a point_scheme \<Rightarrow> 'b point_scheme \<Rightarrow> real" where
  "dist_pt p1 p2 = sqrt ((px p1 - px p2) ^ 2 + (py p1 - py p2) ^ 2)"

definition distSq :: "'a point_scheme \<Rightarrow> 'b point_scheme \<Rightarrow> real" where
  "distSq p1 p2 = (px p1 - px p2) ^ 2 + (py p1 - py p2) ^ 2"

definition rotatePoint :: "'a point_scheme \<Rightarrow> real \<Rightarrow> point" where
  "rotatePoint p angleRad =
     mkPoint (px p * cos angleRad - py p * sin angleRad) (px p * sin angleRad + py p * cos angleRad)"

definition interpolatePoints :: "'a point_scheme \<Rightarrow> 'b point_scheme \<Rightarrow> real \<Rightarrow> point" where
  "interpolatePoints p1 p2 t =
     mkPoint (px p1 + (px p2 - px p1) * t) (py p1 + (py p2 - py p1) * t)"

definition normalize_pt :: "point \<Rightarrow> point" where
  "normalize_pt p =
     (let len = sqrt (px p * px p + py p * py p)
      in if len = 0 then mkPoint 0 0 else mkPoint (px p / len) (py p / len))"

definition addPoints :: "'a point_scheme \<Rightarrow> 'b point_scheme \<Rightarrow> point" where
  "addPoints p1 p2 = mkPoint (px p1 + px p2) (py p1 + py p2)"

definition subPoints :: "'a point_scheme \<Rightarrow> 'b point_scheme \<Rightarrow> point" where
  "subPoints p1 p2 = mkPoint (px p1 - px p2) (py p1 - py p2)"

definition scalePoint :: "'a point_scheme \<Rightarrow> real \<Rightarrow> point" where
  "scalePoint p s = mkPoint (px p * s) (py p * s)"

definition dotProduct :: "'a point_scheme \<Rightarrow> 'b point_scheme \<Rightarrow> real" where
  "dotProduct p1 p2 = px p1 * px p2 + py p1 * py p2"

subsection \<open>Sequence optimisation (closest join)\<close>

text \<open>
  \<open>reorderPolygonToStartAt\<close>. \<open>optimizePathSequence\<close> calls it with
  \<open>bestIdx < path.length - 1\<close>, so \<open>rotated\<close> is not empty where its first
  element is read.
\<close>

definition reorderPolygonToStartAt :: "point list \<Rightarrow> nat \<Rightarrow> point list" where
  "reorderPolygonToStartAt path bestIdx =
    (if bestIdx = 0 then path
     else
       (let uniquePoints = butlast path;
            part1 = drop bestIdx uniquePoints;
            part2 = take bestIdx uniquePoints;
            rotated = part1 @ part2
        in rotated @ [hd rotated]))"

text \<open>
  The search of one round: \<open>None\<close> is the initial state (\<open>minDistanceSq = Infinity\<close>,
  both indices \<open>-1\<close>), \<open>Some (d, i, v)\<close> the best distance, path and vertex so far.
\<close>

type_synonym best = "(real \<times> nat \<times> nat) option"

definition scanVertex :: "point \<Rightarrow> point list \<Rightarrow> nat \<Rightarrow> best \<Rightarrow> nat \<Rightarrow> best" where
  "scanVertex currentPos path i b v =
    (let dSq = distSq currentPos (path ! v)
     in case b of
          None \<Rightarrow> Some (dSq, i, v)
        | Some (minDistanceSq, bi, bv) \<Rightarrow>
            if dSq < minDistanceSq then Some (dSq, i, v) else b)"

definition scanPath :: "point \<Rightarrow> point list list \<Rightarrow> best \<Rightarrow> nat \<Rightarrow> best" where
  "scanPath currentPos remaining b i =
     foldl (scanVertex currentPos (remaining ! i) i) b [0..<length (remaining ! i) - 1]"

definition findBest :: "point \<Rightarrow> point list list \<Rightarrow> best" where
  "findBest currentPos remaining =
     foldl (scanPath currentPos remaining) None [0..<length remaining]"

text \<open>\<open>remaining.splice(i, 1)\<close>.\<close>

definition spliceOut :: "nat \<Rightarrow> 'a list \<Rightarrow> 'a list" where
  "spliceOut i xs = take i xs @ drop (Suc i) xs"

lemma scanVertex_index:
  "scanVertex c path i b v = Some (d, bi, bv) \<Longrightarrow> i < n \<Longrightarrow>
   (\<forall>d' i' v'. b = Some (d', i', v') \<longrightarrow> i' < n) \<Longrightarrow> bi < n"
  by (auto simp: scanVertex_def Let_def split: option.splits if_splits)

lemma foldl_scanVertex_index:
  "foldl (scanVertex c path i) b vs = Some (d, bi, bv) \<Longrightarrow> i < n \<Longrightarrow>
   (\<forall>d' i' v'. b = Some (d', i', v') \<longrightarrow> i' < n) \<Longrightarrow> bi < n"
proof (induction vs arbitrary: b)
  case Nil
  then show ?case by simp
next
  case (Cons v vs)
  have "\<forall>d' i' v'. scanVertex c path i b v = Some (d', i', v') \<longrightarrow> i' < n"
    using scanVertex_index [OF _ Cons.prems(2,3)] by blast
  with Cons.IH [of "scanVertex c path i b v"] Cons.prems show ?case by simp
qed

lemma foldl_scanPath_index:
  "foldl (scanPath c rem) b is = Some (d, bi, bv) \<Longrightarrow> \<forall>i \<in> set is. i < n \<Longrightarrow>
   (\<forall>d' i' v'. b = Some (d', i', v') \<longrightarrow> i' < n) \<Longrightarrow> bi < n"
proof (induction "is" arbitrary: b)
  case Nil
  then show ?case by simp
next
  case (Cons i "is")
  have "\<forall>d' i' v'. scanPath c rem b i = Some (d', i', v') \<longrightarrow> i' < n"
    unfolding scanPath_def using foldl_scanVertex_index [of c "rem ! i" i b _ _ _ _ n] Cons.prems(2,3)
    by auto
  with Cons.IH [of "scanPath c rem b i"] Cons.prems show ?case by simp
qed

lemma findBest_index: "findBest c rem = Some (d, i, v) \<Longrightarrow> i < length rem"
  unfolding findBest_def by (rule foldl_scanPath_index [where b = None]) auto

text \<open>The \<open>while (remaining.length > 0)\<close> loop, with \<open>currentPos\<close> and
  \<open>optimized\<close> as its state.\<close>

function optimizeLoop :: "point list list \<Rightarrow> point \<Rightarrow> point list list \<Rightarrow> point list list" where
  "optimizeLoop remaining currentPos optimized =
    (if remaining = [] then optimized
     else
       (case findBest currentPos remaining of
          Some (minDistanceSq, bestPathIdx, bestVertexIdx) \<Rightarrow>
            (let chosenPath = remaining ! bestPathIdx;
                 reorderedPath = reorderPolygonToStartAt chosenPath bestVertexIdx
             in optimizeLoop (spliceOut bestPathIdx remaining) (last reorderedPath)
                  (optimized @ [reorderedPath]))
        | None \<Rightarrow> optimizeLoop (tl remaining) currentPos (optimized @ [hd remaining])))"
  by pat_completeness auto
termination
proof (relation "measure (\<lambda>(remaining, currentPos, optimized). length remaining)")
  show "wf (measure (\<lambda>(remaining, currentPos, optimized). length remaining))" by simp
next
  fix remaining :: "point list list" and currentPos :: point and optimized :: "point list list"
  assume "remaining \<noteq> []" "findBest currentPos remaining = None"
  then show "((tl remaining, currentPos, optimized @ [hd remaining]), remaining, currentPos, optimized)
              \<in> measure (\<lambda>(remaining, currentPos, optimized). length remaining)"
    by (cases remaining) auto
next
  fix remaining :: "point list list" and currentPos :: point and optimized :: "point list list"
    and x2 :: "real \<times> nat \<times> nat" and minDistanceSq y bestPathIdx bestVertexIdx xa xb
  assume "remaining \<noteq> []" "findBest currentPos remaining = Some x2"
    "(minDistanceSq, y) = x2" "(bestPathIdx, bestVertexIdx) = y"
  then have "bestPathIdx < length remaining"
    using findBest_index [of currentPos remaining minDistanceSq bestPathIdx bestVertexIdx] by auto
  then show "((spliceOut bestPathIdx remaining, last xb, optimized @ [xb]), remaining, currentPos, optimized)
              \<in> measure (\<lambda>(remaining, currentPos, optimized). length remaining)"
    by (simp add: spliceOut_def)
qed

declare optimizeLoop.simps [simp del]

definition optimizePathSequence :: "point list list \<Rightarrow> point list list" where
  "optimizePathSequence paths =
     (if paths = [] then [] else optimizeLoop paths (mkPoint 0 0) [])"

text \<open>
  The sequencing as the specification words it. The candidates are all vertices of all
  remaining polygons, in iteration order; the chosen one is the first whose squared
  distance to the head is not above that of any candidate; the chosen polygon is rotated
  with its closing vertex stripped and re-appended; one polygon is emitted per round.
\<close>

definition vertexCandidates :: "point list list \<Rightarrow> (nat \<times> nat) list" where
  "vertexCandidates ps =
     concat (map (\<lambda>i. map (\<lambda>v. (i, v)) [0..<length (ps ! i)]) [0..<length ps])"

definition nearestVertex :: "point \<Rightarrow> point list list \<Rightarrow> (nat \<times> nat) option" where
  "nearestVertex h ps =
     find (\<lambda>(i, v). list_all (\<lambda>(j, w). distSq h (ps ! i ! v) \<le> distSq h (ps ! j ! w))
                       (vertexCandidates ps))
          (vertexCandidates ps)"

definition rotateClosed :: "point list \<Rightarrow> nat \<Rightarrow> point list" where
  "rotateClosed p v = rotate v (butlast p) @ [p ! v]"

fun nearestJoinRounds :: "nat \<Rightarrow> point \<Rightarrow> point list list \<Rightarrow> point list list" where
  "nearestJoinRounds 0 h ps = []"
| "nearestJoinRounds (Suc n) h ps =
     (case nearestVertex h ps of
        None \<Rightarrow> []
      | Some (i, v) \<Rightarrow>
          rotateClosed (ps ! i) v
            # nearestJoinRounds n (last (rotateClosed (ps ! i) v)) (spliceOut i ps))"

definition nearestJoin :: "point list list \<Rightarrow> point list list" where
  "nearestJoin ps = nearestJoinRounds (length ps) (mkPoint 0 0) ps"

definition closedPolygon :: "point list \<Rightarrow> bool" where
  "closedPolygon p = (2 \<le> length p \<and> hd p = last p)"


text \<open>What the search has established after the candidates \<open>S\<close>: the best is a
  candidate of least squared distance, and the first such in iteration order.\<close>

definition bestInv :: "point \<Rightarrow> point list list \<Rightarrow> best \<Rightarrow> (nat \<times> nat) set \<Rightarrow> bool" where
  "bestInv h ps b S =
    (case b of
       None \<Rightarrow> S = {}
     | Some (d, i, v) \<Rightarrow>
         (i, v) \<in> S \<and> d = distSq h (ps ! i ! v)
         \<and> (\<forall>(j, w) \<in> S. d \<le> distSq h (ps ! j ! w))
         \<and> (\<forall>(j, w) \<in> S. (j < i \<or> (j = i \<and> w < v)) \<longrightarrow> d < distSq h (ps ! j ! w)))"


text \<open>Concrete inputs: three closed loops, and a list with a one-point polygon.\<close>

definition threeLoops :: "point list list" where
  "threeLoops = [[mkPoint 5 5, mkPoint 6 5, mkPoint 6 6, mkPoint 5 5],
                 [mkPoint 3 0, mkPoint 1 1, mkPoint 1 0, mkPoint 3 0],
                 [mkPoint 7 7, mkPoint 6 7, mkPoint 6 6, mkPoint 7 7]]"

definition degeneratePaths :: "point list list" where
  "degeneratePaths = [[mkPoint 0 0], [mkPoint 5 5, mkPoint 6 5, mkPoint 5 5]]"

subsection \<open>Polygon offset and resampling\<close>

definition offsetVertex :: "point list \<Rightarrow> real \<Rightarrow> nat \<Rightarrow> point" where
  "offsetVertex path offsetMm i =
    (let len = length path;
         prev = path ! ((i + len - 1) mod len);
         cur = path ! i;
         nxt = path ! ((i + 1) mod len);
         v1 = normalize_pt (mkPoint (px cur - px prev) (py cur - py prev));
         v2 = normalize_pt (mkPoint (px nxt - px cur) (py nxt - py cur));
         n1 = mkPoint (- py v1) (px v1);
         n2 = mkPoint (- py v2) (px v2);
         avgN = normalize_pt (addPoints n1 n2);
         dot = px n1 * px n2 + py n1 * py n2;
         miter = min (1 / max 0.1 ((1 + dot) / 2)) 2.0
     in addPoints cur (scalePoint avgN (offsetMm * miter)))"

definition offsetPolygon :: "point list \<Rightarrow> real \<Rightarrow> point list" where
  "offsetPolygon path offsetMm =
     (if length path < 3 then path else map (offsetVertex path offsetMm) [0..<length path])"

text \<open>
  The loop of \<open>resamplePath\<close>; the \<open>i--\<close> of the source keeps \<open>i\<close> for the next
  round. \<open>None\<close> stands for no result: the loop does not end, or, where the source
  divides by a zero distance, the points that follow are not numbers. With a positive
  \<open>spacing\<close> the distance is positive wherever the division is reached.
\<close>

definition resamplePoint :: "point \<Rightarrow> point \<Rightarrow> real \<Rightarrow> real \<Rightarrow> point" where
  "resamplePoint prev cur spacing accumulatedDist =
    (let d = dist_pt prev cur;
         needed = spacing - accumulatedDist;
         ratio = needed / d
     in interpolatePoints prev cur ratio)"

partial_function (option) resampleLoop ::
  "point list \<Rightarrow> real \<Rightarrow> nat \<Rightarrow> point \<Rightarrow> real \<Rightarrow> point list \<Rightarrow> point list option" where
  "resampleLoop path spacing i prev accumulatedDist newPath =
    (if i < length path then
       (if accumulatedDist + dist_pt prev (path ! i) \<ge> spacing then
          (if dist_pt prev (path ! i) = 0 then None
           else resampleLoop path spacing i
                  (resamplePoint prev (path ! i) spacing accumulatedDist) 0
                  (newPath @ [resamplePoint prev (path ! i) spacing accumulatedDist]))
        else resampleLoop path spacing (i + 1) (path ! i)
               (accumulatedDist + dist_pt prev (path ! i)) newPath)
     else Some newPath)"

definition resamplePath :: "point list \<Rightarrow> real \<Rightarrow> point list option" where
  "resamplePath path spacing =
    (if length path < 2 then Some path
     else case resampleLoop path spacing 1 (path ! 0) 0 [path ! 0] of
            None \<Rightarrow> None
          | Some newPath \<Rightarrow> Some (newPath @ [last path]))"

section \<open>Stitch generators\<close>

text \<open>The record a generator pushes: \<open>{x, y, type, colorIndex, hexColor}\<close>, with
  \<open>isStructure\<close> left out unless it is given.\<close>

definition genStitch :: "'a point_scheme \<Rightarrow> stitchKind \<Rightarrow> nat \<Rightarrow> string \<Rightarrow> bool option \<Rightarrow> stitch" where
  "genStitch p k colorIdx hex structure =
     \<lparr>px = px p, py = py p, stype = k, colorIndex = Some colorIdx, hexColor = Some hex,
      isStructure = structure\<rparr>"

definition pointOf :: "'a point_scheme \<Rightarrow> point" where
  "pointOf p = mkPoint (px p) (py p)"

subsection \<open>Running stitch\<close>

text \<open>Step 1 of \<open>generateRunningStitches\<close>: a point is kept when it is more than
  0.01 mm away from the last point kept.\<close>

definition cleanStep :: "point list \<Rightarrow> point \<Rightarrow> point list" where
  "cleanStep cp p = (if dist_pt (last cp) p > 0.01 then cp @ [p] else cp)"

definition cleanPath :: "point list \<Rightarrow> point list" where
  "cleanPath pathMm = foldl cleanStep [pathMm ! 0] (tl pathMm)"

text \<open>The body of the loop over the segments of the cleaned path.\<close>

definition runSegment :: "real \<Rightarrow> nat \<Rightarrow> string \<Rightarrow> point \<Rightarrow> point \<Rightarrow> stitch list" where
  "runSegment MAX_RUN_LEN colorIdx hex prev cur =
    (let d = dist_pt prev cur
     in if d > MAX_RUN_LEN then
          (let steps = \<lceil>d / MAX_RUN_LEN\<rceil>
           in map (\<lambda>s. genStitch (interpolatePoints prev cur (of_int s / of_int steps))
                          KStitch colorIdx hex None) [1..steps])
        else [genStitch cur KStitch colorIdx hex None])"

definition runLength :: "processingConfig \<Rightarrow> real" where
  "runLength config = (if maxStitchLengthMm config > 0 then maxStitchLengthMm config else 2.5)"

definition generateRunningStitches ::
  "point list \<Rightarrow> processingConfig \<Rightarrow> nat \<Rightarrow> string \<Rightarrow> stitch list" where
  "generateRunningStitches pathMm config colorIdx hex =
    (if length pathMm < 2 then []
     else
       (let cp = cleanPath pathMm
        in if length cp < 2 then []
           else genStitch (cp ! 0) KStitch colorIdx hex None
                # concat (map (\<lambda>i. runSegment (runLength config) colorIdx hex (cp ! (i - 1)) (cp ! i))
                               [1..<length cp])))"

text \<open>
  The running stitch as the specification words it, on a cleaned path: the first point,
  then for each segment of length \<open>d\<close> the endpoint if \<open>d \<le> L\<close>, and otherwise the
  intermediate points of \<open>ceil(d / L)\<close> equal sub-segments followed by the endpoint.
\<close>

definition equalSplit :: "point \<Rightarrow> point \<Rightarrow> nat \<Rightarrow> point list" where
  "equalSplit p q n =
     map (\<lambda>k. mkPoint (px p + real k * ((px q - px p) / real n))
                       (py p + real k * ((py q - py p) / real n))) [1..<n] @ [q]"

definition specSegment :: "real \<Rightarrow> point \<Rightarrow> point \<Rightarrow> point list" where
  "specSegment L p q =
     (if dist_pt p q \<le> L then [q] else equalSplit p q (nat \<lceil>dist_pt p q / L\<rceil>))"

fun specSegments :: "real \<Rightarrow> point \<Rightarrow> point list \<Rightarrow> point list" where
  "specSegments L p [] = []"
| "specSegments L p (q # qs) = specSegment L p q @ specSegments L q qs"

definition runningSpec :: "real \<Rightarrow> point list \<Rightarrow> point list" where
  "runningSpec L cp = hd cp # specSegments L (hd cp) (tl cp)"

text \<open>
  The length \<open>L\<close> as the specification words it: \<open>max_stitch_length_mm\<close>, and
  2.5 mm if that value is not positive.
\<close>

definition specRunLength :: "processingConfig \<Rightarrow> real" where
  "specRunLength config = (if maxStitchLengthMm config \<le> 0 then 2.5 else maxStitchLengthMm config)"

text \<open>
  The cleaning worded on its own, without the loop of the source: going along the
  polyline, a point is removed when it lies at most 0.01 mm from the last point that was
  kept (\<open>keptAfter k\<close> are the points kept after \<open>k\<close>); the first point is always
  kept.
\<close>

fun keptAfter :: "point \<Rightarrow> point list \<Rightarrow> point list" where
  "keptAfter k [] = []"
| "keptAfter k (p # ps) = (if dist_pt k p \<le> 0.01 then keptAfter k ps else p # keptAfter p ps)"

definition cleanedPolyline :: "point list \<Rightarrow> point list" where
  "cleanedPolyline path = (case path of [] \<Rightarrow> [] | p # ps \<Rightarrow> p # keptAfter p ps)"

text \<open>Every two consecutive points of a list are at most \<open>b\<close> apart.\<close>

fun chainWithin :: "real \<Rightarrow> point \<Rightarrow> point list \<Rightarrow> bool" where
  "chainWithin b p [] = True"
| "chainWithin b p (q # qs) = (dist_pt p q \<le> b \<and> chainWithin b q qs)"

fun consecutiveWithin :: "real \<Rightarrow> point list \<Rightarrow> bool" where
  "consecutiveWithin b [] = True"
| "consecutiveWithin b (p # ps) = chainWithin b p ps"

subsection \<open>Satin stitch\<close>

text \<open>The first loop of \<open>generateSatinStitches\<close>: the left and right rail points at
  index \<open>i\<close> of the resampled spine.\<close>

definition satinRail :: "real \<Rightarrow> point list \<Rightarrow> nat \<Rightarrow> point \<times> point" where
  "satinRail halfWidth resampled i =
    (let cur = resampled ! i;
         prev = (if i > 0 then resampled ! (i - 1)
                 else subPoints cur (subPoints (resampled ! (i + 1)) cur));
         nxt = (if i < length resampled - 1 then resampled ! (i + 1)
                else addPoints cur (subPoints cur (resampled ! (i - 1))));
         v1 = normalize_pt (subPoints cur prev);
         v2 = normalize_pt (subPoints nxt cur);
         n1 = mkPoint (- py v1) (px v1);
         tangentSum = addPoints v1 v2;
         tangentLen = sqrt (px tangentSum * px tangentSum + py tangentSum * py tangentSum);
         bisector = normalize_pt tangentSum;
         miterVector = (if tangentLen < 0.001 then n1 else mkPoint (- py bisector) (px bisector));
         dot = dotProduct miterVector n1;
         miterLength0 = (if tangentLen < 0.001 then halfWidth
                         else if \<bar>dot\<bar> > 0.1 then halfWidth / dot else halfWidth);
         MITER_LIMIT = halfWidth * 3.0;
         miterLength = (if miterLength0 > MITER_LIMIT then MITER_LIMIT else miterLength0)
     in (addPoints cur (scalePoint miterVector miterLength),
         subPoints cur (scalePoint miterVector miterLength)))"

text \<open>The second loop: the penetration pair \<open>(p1, p2)\<close> at index \<open>i\<close> after the
  short-stitch shortening, and the stitches emitted for it.\<close>

definition satinPair :: "point list \<Rightarrow> point list \<Rightarrow> nat \<Rightarrow> point \<times> point" where
  "satinPair leftRail rightRail i =
    (let p1 = leftRail ! i;
         p2 = rightRail ! i
     in if i > 0 then
          (let dLeft = dist_pt p1 (leftRail ! (i - 1));
               dRight = dist_pt p2 (rightRail ! (i - 1))
           in if i mod 2 \<noteq> 0 then
                (if dLeft < dRight * 0.6 \<and> dLeft < 0.4 then (interpolatePoints p1 p2 0.3, p2)
                 else if dRight < dLeft * 0.6 \<and> dRight < 0.4 then (p1, interpolatePoints p2 p1 0.3)
                 else (p1, p2))
              else (p1, p2))
        else (p1, p2))"

definition satinShift :: "nat \<Rightarrow> real \<Rightarrow> real \<Rightarrow> real \<Rightarrow> real" where
  "satinShift i maxSafeShift currentLen t =
    (if maxSafeShift > 0.5
     then t + ([0, 0.5, - 0.5] ! (i mod 3)) * min maxSafeShift 2.0 / currentLen
     else t)"

definition satinCrossing ::
  "processingConfig \<Rightarrow> nat \<Rightarrow> string \<Rightarrow> nat \<Rightarrow> point \<Rightarrow> point \<Rightarrow> stitch list" where
  "satinCrossing config colorIdx hex i p1 p2 =
    (let currentLen = dist_pt p1 p2
     in if currentLen > maxStitchLengthMm config then
          (let maxLen = (if maxStitchLengthMm config = 0 then 7.0 else maxStitchLengthMm config);
               steps = \<lceil>currentLen / maxLen\<rceil>;
               idealSegLen = currentLen / of_int steps;
               maxSafeShift = maxLen - idealSegLen - 0.1
           in [genStitch p1 KStitch colorIdx hex None]
              @ map (\<lambda>k. genStitch
                            (interpolatePoints p1 p2
                               (satinShift i maxSafeShift currentLen (of_int k / of_int steps)))
                            KStitch colorIdx hex None) [1..steps - 1]
              @ [genStitch p2 KStitch colorIdx hex None])
        else [genStitch p1 KStitch colorIdx hex None, genStitch p2 KStitch colorIdx hex None])"

definition satinHalfWidth :: "processingConfig \<Rightarrow> real" where
  "satinHalfWidth config = satinColumnWidthMm config / 2 + pullCompensationMm config / 2"

definition satinPairsOf :: "real \<Rightarrow> point list \<Rightarrow> (point \<times> point) list" where
  "satinPairsOf halfWidth resampled =
    (let rails = map (satinRail halfWidth resampled) [0..<length resampled];
         leftRail = map fst rails;
         rightRail = map snd rails
     in map (satinPair leftRail rightRail) [0..<length leftRail])"

text \<open>The penetration pairs of a spine, and the generator, which emits the crossing of
  each pair in turn.\<close>

definition satinPairs :: "point list \<Rightarrow> processingConfig \<Rightarrow> (point \<times> point) list option" where
  "satinPairs pathMm config =
    (if length pathMm < 2 then Some []
     else case resamplePath pathMm (densityMm config) of
            None \<Rightarrow> None
          | Some resampled \<Rightarrow> Some (satinPairsOf (satinHalfWidth config) resampled))"

definition generateSatinStitches ::
  "point list \<Rightarrow> processingConfig \<Rightarrow> nat \<Rightarrow> string \<Rightarrow> stitch list option" where
  "generateSatinStitches pathMm config colorIdx hex =
    (case satinPairs pathMm config of
       None \<Rightarrow> None
     | Some pairs \<Rightarrow>
         Some (concat (map (\<lambda>i. satinCrossing config colorIdx hex i (fst (pairs ! i)) (snd (pairs ! i)))
                           [0..<length pairs])))"

subsection \<open>Tatami fill\<close>

text \<open>
  What a call can do besides returning: throw (the only exception of the pipeline is the
  \<open>TypeError\<close> of reading a coordinate of \<open>undefined\<close>), or give no result at
  all (\<open>None\<close>, a loop that does not end).
\<close>

datatype error = TypeError

type_synonym 'a result = "(error + 'a) option"

definition lowerReal :: "real option \<Rightarrow> real \<Rightarrow> real option" where
  "lowerReal m v = (case m of None \<Rightarrow> Some v | Some w \<Rightarrow> if v < w then Some v else Some w)"

definition upperReal :: "real option \<Rightarrow> real \<Rightarrow> real option" where
  "upperReal m v = (case m of None \<Rightarrow> Some v | Some w \<Rightarrow> if v > w then Some v else Some w)"

text \<open>An edge of the table, lower end first; nothing for a near-horizontal edge.\<close>

definition edgeOf :: "point \<Rightarrow> point \<Rightarrow> (point \<times> point) list" where
  "edgeOf a b =
    (if \<bar>py a - py b\<bar> > 0.001 then (if py a < py b then [(a, b)] else [(b, a)]) else [])"

definition pathEdges :: "point list \<Rightarrow> (point \<times> point) list" where
  "pathEdges path =
     concat (map (\<lambda>i. edgeOf (path ! i) (path ! (i + 1))) [0..<length path - 1])
     @ edgeOf (last path) (path ! 0)"

definition rowIntersections :: "(point \<times> point) list \<Rightarrow> real \<Rightarrow> real list" where
  "rowIntersections edges y =
     sort (map (\<lambda>e. px (fst e) + (y - py (fst e)) * (px (snd e) - px (fst e)) / (py (snd e) - py (fst e)))
               (filter (\<lambda>e. py (fst e) \<le> y \<and> py (snd e) > y) edges))"

text \<open>The loop \<open>for (i = 0; i < n; i += 2)\<close> with its \<open>break\<close> on a last odd element.\<close>

fun pairUp :: "real list \<Rightarrow> (real \<times> real) list" where
  "pairUp (a # b # rest) = (a, b) # pairUp rest"
| "pairUp rest = []"

text \<open>The remainder operator of JavaScript on numbers: the quotient is truncated.\<close>

definition jsRem :: "real \<Rightarrow> real \<Rightarrow> real" where
  "jsRem a b = a - b * of_int (if a / b \<ge> 0 then \<lfloor>a / b\<rfloor> else \<lceil>a / b\<rceil>)"

definition stitchLen :: real where
  "stitchLen = 4.0"

text \<open>The loop \<open>while (currX < xEnd)\<close> of a bricked row.\<close>

function brickPoints :: "real \<Rightarrow> real \<Rightarrow> real \<Rightarrow> point list" where
  "brickPoints currX xEnd y =
     (if currX < xEnd then mkPoint currX y # brickPoints (currX + stitchLen) xEnd y else [])"
  by pat_completeness auto
termination
proof (relation "measure (\<lambda>(currX, xEnd, y). nat \<lceil>(xEnd - currX) / stitchLen\<rceil>)")
  show "wf (measure (\<lambda>(currX, xEnd, y). nat \<lceil>(xEnd - currX) / stitchLen\<rceil>))" by simp
next
  fix currX xEnd y :: real
  assume a: "currX < xEnd"
  have "(xEnd - (currX + stitchLen)) / stitchLen = (xEnd - currX) / stitchLen - 1"
    by (simp add: stitchLen_def field_simps)
  then have "\<lceil>(xEnd - (currX + stitchLen)) / stitchLen\<rceil> = \<lceil>(xEnd - currX) / stitchLen\<rceil> - 1"
    by simp
  moreover have "0 < \<lceil>(xEnd - currX) / stitchLen\<rceil>"
    using a by (simp add: stitchLen_def less_ceiling_iff)
  ultimately show "((currX + stitchLen, xEnd, y), currX, xEnd, y)
      \<in> measure (\<lambda>(currX, xEnd, y). nat \<lceil>(xEnd - currX) / stitchLen\<rceil>)"
    by simp
qed

declare brickPoints.simps [simp del]

definition lineStitchesOf :: "processingConfig \<Rightarrow> real \<Rightarrow> real \<Rightarrow> real \<Rightarrow> point list" where
  "lineStitchesOf config xStart xEnd y =
    (let segmentLen = xEnd - xStart;
         maxSatinLen = (if maxStitchLengthMm config = 0 then 7.0 else maxStitchLengthMm config)
     in if segmentLen \<le> maxSatinLen then [mkPoint xStart y, mkPoint xEnd y]
        else
          (let pseudoRandom = sin (y * 123.45) * 10000;
               noise = (pseudoRandom - of_int \<lfloor>pseudoRandom\<rfloor>) * 0.4;
               offsetFraction = of_int (\<bar>jsRound (y * 10)\<bar> mod 3) / 3.0 + noise;
               rowOffset = offsetFraction * stitchLen;
               currX0 = xStart + jsRem (stitchLen - rowOffset) stitchLen;
               currX = (if currX0 \<le> xStart then currX0 + stitchLen else currX0)
           in [mkPoint xStart y] @ brickPoints currX xEnd y @ [mkPoint xEnd y]))"

text \<open>One inside-segment of a row: the connection to what has been stitched so far,
  then the penetrations of the segment, rotated back.\<close>

definition tatamiSegment ::
  "processingConfig \<Rightarrow> nat \<Rightarrow> string \<Rightarrow> real \<Rightarrow> real \<Rightarrow> stitch list \<Rightarrow> real \<times> real \<Rightarrow> stitch list" where
  "tatamiSegment config colorIdx hex invAngle y stitches seg =
    (let xStart = fst seg;
         xEnd = snd seg;
         segmentLen = xEnd - xStart
     in if segmentLen < 0.5 then stitches
        else
          (let line0 = lineStitchesOf config xStart xEnd y;
               isReverse = (jsRound (y / densityMm config) mod 2 = 0);
               lineStitches = (if isReverse then rev line0 else line0);
               firstP = rotatePoint (lineStitches ! 0) invAngle;
               connected =
                 (if stitches \<noteq> [] then
                    (let d = dist_pt (last stitches) firstP
                     in if d > 2.0 then stitches @ [genStitch firstP KJump colorIdx hex (Some True)]
                        else if d > 0.1 then stitches @ [genStitch firstP KStitch colorIdx hex None]
                        else stitches)
                  else stitches @ [genStitch firstP KJump colorIdx hex (Some True)])
           in connected
              @ map (\<lambda>p. genStitch (rotatePoint p invAngle) KStitch colorIdx hex None)
                    (tl lineStitches)))"

definition tatamiRow ::
  "processingConfig \<Rightarrow> nat \<Rightarrow> string \<Rightarrow> real \<Rightarrow> (point \<times> point) list \<Rightarrow> real \<Rightarrow> stitch list \<Rightarrow> stitch list" where
  "tatamiRow config colorIdx hex invAngle edges y stitches =
     foldl (tatamiSegment config colorIdx hex invAngle y) stitches (pairUp (rowIntersections edges y))"

text \<open>The loop over the rows, \<open>for (y = minY + rowSpacing; y < maxY; y += rowSpacing)\<close>.\<close>

partial_function (option) tatamiRows ::
  "processingConfig \<Rightarrow> nat \<Rightarrow> string \<Rightarrow> real \<Rightarrow> (point \<times> point) list \<Rightarrow> real \<Rightarrow> real \<Rightarrow> stitch list
   \<Rightarrow> stitch list option" where
  "tatamiRows config colorIdx hex invAngle edges maxY y stitches =
    (if y < maxY
     then tatamiRows config colorIdx hex invAngle edges maxY (y + densityMm config)
            (tatamiRow config colorIdx hex invAngle edges y stitches)
     else Some stitches)"

text \<open>
  \<open>generateTatamiStitches\<close>. The closing edge of a path reads its last and its first
  point, which throws on a path without points. The bounds start at plus and minus
  infinity (\<open>None\<close>), and stay there only if no path has a point.
\<close>

definition generateTatamiStitches ::
  "point list list \<Rightarrow> processingConfig \<Rightarrow> nat \<Rightarrow> string \<Rightarrow> stitch list result" where
  "generateTatamiStitches shapePathsMm config colorIdx hex =
    (if shapePathsMm = [] then Some (Inr [])
     else
       (let compensatedPaths = map (\<lambda>p. offsetPolygon p (pullCompensationMm config)) shapePathsMm;
            angleRad = - tatamiAngle config * (pi / 180);
            invAngle = - angleRad;
            rotatedPaths = map (map (\<lambda>p. rotatePoint p angleRad)) compensatedPaths;
            minY = foldl lowerReal None (map py (concat rotatedPaths));
            maxY = foldl upperReal None (map py (concat rotatedPaths))
        in if [] \<in> set rotatedPaths then Some (Inl TypeError)
           else
             (case (minY, maxY) of
                (Some lo, Some hi) \<Rightarrow>
                  (case tatamiRows config colorIdx hex invAngle (concat (map pathEdges rotatedPaths))
                          hi (lo + densityMm config) [] of
                     None \<Rightarrow> None
                   | Some stitches \<Rightarrow> Some (Inr stitches))
              | _ \<Rightarrow> Some (Inr []))))"

subsection \<open>Underlay, tie-in, tie-off, clean-up\<close>

definition markStructure :: "stitch \<Rightarrow> stitch" where
  "markStructure s = s\<lparr>isStructure := Some True\<rparr>"

definition generateUnderlay ::
  "point list \<Rightarrow> processingConfig \<Rightarrow> nat \<Rightarrow> string \<Rightarrow> stitch list option" where
  "generateUnderlay pathMm config colorIdx hex =
    (if \<not> enableUnderlay config then Some []
     else if stitchType config = Satin then
       (let width = satinColumnWidthMm config
        in if width < 2.0
           then Some (map markStructure (generateRunningStitches pathMm config colorIdx hex))
           else
             (let inset = width / 2 - 0.4
              in if inset > 0
                 then map_option (map markStructure)
                        (generateSatinStitches pathMm
                           (config\<lparr>satinColumnWidthMm := inset * 2, densityMm := 2.0,
                                   pullCompensationMm := 0\<rparr>) colorIdx hex)
                 else Some []))
     else
       (let insetPoly = offsetPolygon pathMm (- 0.6)
        in if length insetPoly > 2 then
             (let run = generateRunningStitches insetPoly config colorIdx hex;
                  stitches = map markStructure run
              in Some (map markStructure
                         (if run \<noteq> []
                          then stitches @ [(hd run)\<lparr>stype := KStitch, isStructure := Some True\<rparr>]
                          else stitches)))
           else Some []))"

definition tieStitch :: "stitch \<Rightarrow> real \<Rightarrow> stitchKind \<Rightarrow> stitch" where
  "tieStitch s dx k =
     \<lparr>px = px s + dx, py = py s, stype = k, colorIndex = colorIndex s, hexColor = hexColor s,
      isStructure = Some True\<rparr>"

definition addTieIn :: "stitch list \<Rightarrow> stitch list" where
  "addTieIn stitches =
    (if stitches = [] then []
     else if stype (hd stitches) = KJump \<or> stype (hd stitches) = KEnd then stitches
     else [tieStitch (hd stitches) 0.5 KStitch, tieStitch (hd stitches) 0 KStitch] @ stitches)"

definition addTieOff :: "stitch list \<Rightarrow> stitch list" where
  "addTieOff stitches =
    (if stitches = [] then []
     else if stype (last stitches) = KJump \<or> stype (last stitches) = KEnd then stitches
     else stitches @ [tieStitch (last stitches) (- 0.5) KStitch, tieStitch (last stitches) 0 KStitch,
                      tieStitch (last stitches) 0 KTrim])"

text \<open>
  \<open>removeSmallStitches\<close> starts its result with \<open>stitches[0]\<close>, which is
  \<open>undefined\<close> for an empty list; an element of its result, and of the result of
  \<open>digitizeDesign\<close>, is therefore an \<open>entry\<close>: \<open>undefined\<close>, a stitch record, or
  the object \<open>{type: 'end'}\<close> that spreading \<open>undefined\<close> gives.
\<close>

datatype entry = Undefined | Record stitch | TypeOnly stitchKind

fun smallLoop :: "real \<Rightarrow> stitch \<Rightarrow> stitch list \<Rightarrow> stitch list" where
  "smallLoop minLen prev [] = []"
| "smallLoop minLen prev (cur # rest) =
     (if stype cur = KStitch \<and> dist_pt prev cur < minLen \<and> dist_pt prev cur > 0.01
      then smallLoop minLen prev rest
      else cur # smallLoop minLen cur rest)"

definition removeSmallStitches :: "stitch list \<Rightarrow> real \<Rightarrow> entry list" where
  "removeSmallStitches stitches minLen =
    (case stitches of
       [] \<Rightarrow> [Undefined]
     | s # rest \<Rightarrow> map Record (s # smallLoop minLen s rest))"

section \<open>Layer composer (digitizeDesign)\<close>

text \<open>\<open>{...s, type: k, colorIndex: i, hexColor: layer.color, isStructure: true}\<close>.\<close>

definition structural :: "stitch \<Rightarrow> stitchKind \<Rightarrow> nat \<Rightarrow> string \<Rightarrow> stitch" where
  "structural s k i col = s\<lparr>stype := k, colorIndex := Some i, hexColor := Some col, isStructure := Some True\<rparr>"

fun foldResult :: "('s \<Rightarrow> 'a \<Rightarrow> 's result) \<Rightarrow> 's \<Rightarrow> 'a list \<Rightarrow> 's result" where
  "foldResult f s [] = Some (Inr s)"
| "foldResult f s (a # as) =
     (case f s a of
        None \<Rightarrow> None
      | Some (Inl e) \<Rightarrow> Some (Inl e)
      | Some (Inr s') \<Rightarrow> foldResult f s' as)"

definition mainStitches :: "point list \<Rightarrow> processingConfig \<Rightarrow> nat \<Rightarrow> string \<Rightarrow> stitch list result" where
  "mainStitches path config i col =
    (if stitchType config = Tatami then generateTatamiStitches [path] config i col
     else if stitchType config = Satin then map_option Inr (generateSatinStitches path config i col)
     else Some (Inr (generateRunningStitches path config i col)))"

text \<open>Steps 1 to 3 for one path of a layer; the state is \<open>layerStitches\<close>.\<close>

definition withUnderlay :: "nat \<Rightarrow> string \<Rightarrow> stitch list \<Rightarrow> stitch list \<Rightarrow> stitch list" where
  "withUnderlay i col layerStitches underlay =
    (if underlay \<noteq> [] then
       (let tiedUnderlay = addTieIn underlay
        in (if layerStitches \<noteq> [] then layerStitches @ [structural (hd tiedUnderlay) KJump i col]
            else layerStitches) @ tiedUnderlay)
     else layerStitches)"

definition withMain ::
  "processingConfig \<Rightarrow> nat \<Rightarrow> string \<Rightarrow> stitch list \<Rightarrow> stitch list \<Rightarrow> stitch list \<Rightarrow> stitch list" where
  "withMain config i col underlay layerStitches main0 =
    (if main0 \<noteq> [] then
       (let main1 = (if underlay = [] then addTieIn main0 else main0);
            main = addTieOff main1
        in (if layerStitches \<noteq> [] then
              (if dist_pt (last layerStitches) (hd main) > trimJumpDistanceMm config
               then layerStitches @ [structural (last layerStitches) KTrim i col,
                                     structural (hd main) KJump i col]
               else layerStitches @ [structural (hd main) KJump i col])
            else layerStitches) @ main)
     else layerStitches)"

definition pathStep ::
  "processingConfig \<Rightarrow> nat \<Rightarrow> string \<Rightarrow> stitch list \<Rightarrow> point list \<Rightarrow> stitch list result" where
  "pathStep config i col layerStitches path =
    (case generateUnderlay path config i col of
       None \<Rightarrow> None
     | Some underlay \<Rightarrow>
         (case mainStitches path config i col of
            None \<Rightarrow> None
          | Some (Inl e) \<Rightarrow> Some (Inl e)
          | Some (Inr main0) \<Rightarrow>
              Some (Inr (withMain config i col underlay
                           (withUnderlay i col layerStitches underlay) main0))))"

definition joinLayer :: "nat \<Rightarrow> string \<Rightarrow> stitch list \<Rightarrow> stitch list \<Rightarrow> stitch list" where
  "joinLayer i col allStitches layerStitches =
    (if layerStitches \<noteq> [] then
       (if allStitches \<noteq> [] then
          allStitches @ [structural (last allStitches) KColorChange i col,
                         structural (hd layerStitches) KJump i col]
        else allStitches) @ layerStitches
     else allStitches)"

definition layerStep ::
  "processingConfig \<Rightarrow> stitch list \<Rightarrow> nat \<times> vectorLayer \<Rightarrow> stitch list result" where
  "layerStep config allStitches il =
    (case foldResult (pathStep config (fst il) (layerColor (snd il))) [] (layerPaths (snd il)) of
       None \<Rightarrow> None
     | Some (Inl e) \<Rightarrow> Some (Inl e)
     | Some (Inr layerStitches) \<Rightarrow>
         Some (Inr (joinLayer (fst il) (layerColor (snd il)) allStitches layerStitches)))"

text \<open>The end of \<open>digitizeDesign\<close>: \<open>cleanedStitches\<close> always has an element, so
  the end record is always pushed; it is a copy of the last element with the type
  replaced.\<close>

definition endOf :: "entry \<Rightarrow> entry" where
  "endOf e = (case e of Undefined \<Rightarrow> TypeOnly KEnd
              | Record s \<Rightarrow> Record (s\<lparr>stype := KEnd\<rparr>)
              | TypeOnly k \<Rightarrow> TypeOnly KEnd)"

definition finishDesign :: "processingConfig \<Rightarrow> stitch list \<Rightarrow> entry list" where
  "finishDesign config allStitches =
    (let cleanedStitches = removeSmallStitches allStitches (minStitchLengthMm config)
     in if cleanedStitches \<noteq> [] then cleanedStitches @ [endOf (last cleanedStitches)]
        else cleanedStitches)"

definition digitizeDesign :: "vectorLayer list \<Rightarrow> processingConfig \<Rightarrow> entry list result" where
  "digitizeDesign layers config =
    (case foldResult (layerStep config) [] (zip [0..<length layers] layers) of
       None \<Rightarrow> None
     | Some (Inl e) \<Rightarrow> Some (Inl e)
     | Some (Inr allStitches) \<Rightarrow> Some (Inr (finishDesign config allStitches)))"

definition entryKind :: "entry \<Rightarrow> stitchKind option" where
  "entryKind e = (case e of Undefined \<Rightarrow> None | Record s \<Rightarrow> Some (stype s) | TypeOnly k \<Rightarrow> Some k)"

section \<open>Tajima DST encoder (services/dstExporter.ts)\<close>

datatype tajimaType = TStitch | TJump | TStop | TEnd

text \<open>\<open>b[i] |= m\<close> on the three-byte record.\<close>

definition orAt :: "byte list \<Rightarrow> nat \<Rightarrow> byte \<Rightarrow> byte list" where
  "orAt b i m = b[i := (b ! i) OR m]"

text \<open>\<open>if (v >= w) { b[i] |= m; v -= w; }\<close> and \<open>if (v <= -w) { b[i] |= m; v += w; }\<close>.\<close>

definition takeGe :: "int \<Rightarrow> nat \<Rightarrow> byte \<Rightarrow> byte list \<times> int \<Rightarrow> byte list \<times> int" where
  "takeGe w i m st = (case st of (b, v) \<Rightarrow> if v \<ge> w then (orAt b i m, v - w) else (b, v))"

definition takeLe :: "int \<Rightarrow> nat \<Rightarrow> byte \<Rightarrow> byte list \<times> int \<Rightarrow> byte list \<times> int" where
  "takeLe w i m st = (case st of (b, v) \<Rightarrow> if v \<le> - w then (orAt b i m, v + w) else (b, v))"

definition encodeTajimaStitch :: "int \<Rightarrow> int \<Rightarrow> tajimaType \<Rightarrow> byte list" where
  "encodeTajimaStitch dx dy t =
    (let b0 = [0, 0, 0];
         b1 = (if t = TJump \<or> t = TStop \<or> t = TEnd then orAt b0 2 0x80 else b0);
         b2 = (if t = TStop \<or> t = TEnd then orAt b1 2 0x40 else b1);
         sy = (takeLe 81 2 0x08 (takeGe 81 2 0x04
              (takeLe 27 1 0x10 (takeGe 27 1 0x20
              (takeLe 3 1 0x40 (takeGe 3 1 0x80
              (takeLe 9 0 0x08 (takeGe 9 0 0x04
              (takeLe 1 0 0x02 (takeGe 1 0 0x01 (b2, dy)))))))))));
         sx = (takeLe 81 2 0x20 (takeGe 81 2 0x10
              (takeLe 27 1 0x01 (takeGe 27 1 0x02
              (takeLe 3 1 0x04 (takeGe 3 1 0x08
              (takeLe 9 0 0x10 (takeGe 9 0 0x20
              (takeLe 1 0 0x40 (takeGe 1 0 0x80 (fst sy, dx)))))))))))
     in fst sx)"

text \<open>
  Reading a record back with the weight table of the format (the same bit positions
  the encoder sets): each set bit contributes its signed weight.
\<close>

definition wbit :: "byte list \<Rightarrow> nat \<Rightarrow> nat \<Rightarrow> int \<Rightarrow> int" where
  "wbit b i n w = (if bit (b ! i) n then w else 0)"

definition decodeTajimaY :: "byte list \<Rightarrow> int" where
  "decodeTajimaY b =
     wbit b 0 0 1 + wbit b 0 1 (- 1) + wbit b 0 2 9 + wbit b 0 3 (- 9)
   + wbit b 1 7 3 + wbit b 1 6 (- 3) + wbit b 1 5 27 + wbit b 1 4 (- 27)
   + wbit b 2 2 81 + wbit b 2 3 (- 81)"

definition decodeTajimaX :: "byte list \<Rightarrow> int" where
  "decodeTajimaX b =
     wbit b 0 7 1 + wbit b 0 6 (- 1) + wbit b 0 5 9 + wbit b 0 4 (- 9)
   + wbit b 1 3 3 + wbit b 1 2 (- 3) + wbit b 1 1 27 + wbit b 1 0 (- 27)
   + wbit b 2 4 81 + wbit b 2 5 (- 81)"

text \<open>The state of the loop of \<open>createDstFile\<close>; \<open>None\<close> is the initial
  \<open>Infinity\<close> / \<open>-Infinity\<close> of a bound.\<close>

record dstState =
  currentX :: int
  currentY :: int
  minX :: "int option"
  maxX :: "int option"
  minY :: "int option"
  maxY :: "int option"
  stitchCount :: nat
  bodyParts :: "byte list list"

definition MAX_STEP :: int where
  "MAX_STEP = 121"

definition clampStep :: "int \<Rightarrow> int \<Rightarrow> int" where
  "clampStep m d = (if d > m then m else if d < - m then - m else d)"

text \<open>The inner \<open>while\<close> loop that splits an oversize move into jump records;
  the state is \<open>(dx, dy)\<close> and the encoder state.\<close>

function dstSplit :: "int \<Rightarrow> int \<Rightarrow> dstState \<Rightarrow> int \<times> int \<times> dstState" where
  "dstSplit dx dy st =
    (if \<bar>dx\<bar> > MAX_STEP \<or> \<bar>dy\<bar> > MAX_STEP then
       (let stepX = clampStep MAX_STEP dx;
            stepY = clampStep MAX_STEP dy
        in dstSplit (dx - stepX) (dy - stepY)
             (st\<lparr>bodyParts := bodyParts st @ [encodeTajimaStitch stepX stepY TJump],
                 currentX := currentX st + stepX,
                 currentY := currentY st + stepY,
                 stitchCount := stitchCount st + 1\<rparr>))
     else (dx, dy, st))"
  by pat_completeness auto
termination
  by (relation "measure (\<lambda>(dx, dy, st). nat (\<bar>dx\<bar> + \<bar>dy\<bar>))")
     (auto simp: MAX_STEP_def clampStep_def)

definition lowerBound :: "int \<Rightarrow> int option \<Rightarrow> int option" where
  "lowerBound t m = (case m of None \<Rightarrow> Some t | Some v \<Rightarrow> if t < v then Some t else Some v)"

definition upperBound :: "int \<Rightarrow> int option \<Rightarrow> int option" where
  "upperBound t m = (case m of None \<Rightarrow> Some t | Some v \<Rightarrow> if t > v then Some t else Some v)"

definition tajimaTypeOf :: "stitchKind \<Rightarrow> tajimaType" where
  "tajimaTypeOf k = (if k = KColorChange then TStop else if k = KJump then TJump else TStitch)"

text \<open>One iteration of the \<open>for\<close> loop of \<open>createDstFile\<close>.\<close>

definition dstStep :: "dstState \<Rightarrow> stitch \<Rightarrow> dstState" where
  "dstStep st s =
    (if stype s = KEnd then st
     else
       (let targetX = jsRound (px s * 10);
            targetY = jsRound (py s * 10);
            dx = targetX - currentX st;
            dy = targetY - currentY st;
            st1 = st\<lparr>minX := lowerBound targetX (minX st), maxX := upperBound targetX (maxX st),
                     minY := lowerBound targetY (minY st), maxY := upperBound targetY (maxY st)\<rparr>
        in case dstSplit dx dy st1 of (dx', dy', st2) \<Rightarrow>
             st2\<lparr>bodyParts := bodyParts st2 @ [encodeTajimaStitch dx' dy' (tajimaTypeOf (stype s))],
                 currentX := currentX st2 + dx',
                 currentY := currentY st2 + dy',
                 stitchCount := stitchCount st2 + 1\<rparr>))"

definition dstInit :: dstState where
  "dstInit = \<lparr>currentX = 0, currentY = 0, minX = None, maxX = None, minY = None, maxY = None,
              stitchCount = 0, bodyParts = []\<rparr>"

definition dstLoop :: "stitch list \<Rightarrow> dstState" where
  "dstLoop stitches = foldl dstStep dstInit stitches"

text \<open>The body: the records of the loop and the end-of-file record.\<close>

definition dstBody :: "stitch list \<Rightarrow> byte list list" where
  "dstBody stitches = bodyParts (dstLoop stitches) @ [encodeTajimaStitch 0 0 TEnd]"

text \<open>\<open>Number.prototype.toString\<close> on an integer, \<open>padStart\<close> and \<open>padEnd\<close>.\<close>

fun digitsOf :: "nat \<Rightarrow> string" where
  "digitsOf n = (if n < 10 then [''0123456789'' ! n]
                 else digitsOf (n div 10) @ [''0123456789'' ! (n mod 10)])"

definition toString :: "int \<Rightarrow> string" where
  "toString i = (if i < 0 then CHR ''-'' # digitsOf (nat (- i)) else digitsOf (nat i))"

definition padStart :: "nat \<Rightarrow> char \<Rightarrow> string \<Rightarrow> string" where
  "padStart n c s = replicate (n - length s) c @ s"

definition padEnd :: "nat \<Rightarrow> char \<Rightarrow> string \<Rightarrow> string" where
  "padEnd n c s = s @ replicate (n - length s) c"

text \<open>\<open>writeString\<close>: a store into a typed array outside its range is dropped.\<close>

fun writeString :: "string \<Rightarrow> nat \<Rightarrow> string \<Rightarrow> string" where
  "writeString [] off h = h"
| "writeString (c # cs) off h = writeString cs (off + 1) (h[off := c])"

text \<open>\<open>Math.max(0, maxX)\<close> and \<open>Math.abs(Math.min(0, minX))\<close> on a bound that may
  still be infinite.\<close>

definition posExtent :: "int option \<Rightarrow> int" where
  "posExtent m = (case m of None \<Rightarrow> 0 | Some v \<Rightarrow> max 0 v)"

definition negExtent :: "int option \<Rightarrow> int" where
  "negExtent m = (case m of None \<Rightarrow> 0 | Some v \<Rightarrow> \<bar>min 0 v\<bar>)"

text \<open>The strings written into the header, in the order of the source.\<close>

definition stField :: "stitch list \<Rightarrow> string" where
  "stField stitches = ''ST:'' @ padStart 7 CHR ''0'' (toString (int (stitchCount (dstLoop stitches))))"

definition coField :: "stitch list \<Rightarrow> string" where
  "coField stitches =
     ''CO:'' @ padStart 3 CHR ''0'' (toString (int (length (filter (\<lambda>s. stype s = KColorChange) stitches))))"

definition extentField :: "string \<Rightarrow> int \<Rightarrow> string" where
  "extentField tag v = tag @ padStart 5 CHR ''0'' (toString v)"

definition dstHeader :: "stitch list \<Rightarrow> string" where
  "dstHeader stitches =
    (let st = dstLoop stitches;
         h0 = replicate 512 CHR '' '';
         h1 = writeString (''LA:'' @ padEnd 16 CHR '' '' ''SR_LUCAS'') 0 h0;
         h2 = writeString (stField stitches) 23 h1;
         h3 = writeString (coField stitches) 39 h2;
         h4 = writeString (extentField ''+X:'' (posExtent (maxX st))) 54 h3;
         h5 = writeString (extentField ''-X:'' (negExtent (minX st))) 69 h4;
         h6 = writeString (extentField ''+Y:'' (posExtent (maxY st))) 84 h5;
         h7 = writeString (extentField ''-Y:'' (negExtent (minY st))) 99 h6;
         h8 = writeString ''AX:+00000'' 114 h7;
         h9 = writeString ''AY:+00000'' 129 h8;
         h10 = writeString ''MX:+00000'' 144 h9;
         h11 = writeString ''MY:+00000'' 159 h10
     in writeString ''PD:******'' 174 h11)"

definition createDstFile :: "stitch list \<Rightarrow> byte list" where
  "createDstFile stitches = map of_char (dstHeader stitches) @ concat (dstBody stitches)"

section \<open>Melco EXP encoder (createExpFile)\<close>

record expState =
  expCurrentX :: int
  expCurrentY :: int
  written :: "byte list"

definition EXP_MAX_STEP :: int where
  "EXP_MAX_STEP = 120"

definition writeBytes :: "byte list \<Rightarrow> expState \<Rightarrow> expState" where
  "writeBytes bs st = st\<lparr>written := written st @ bs\<rparr>"

text \<open>The \<open>while (dx !== 0 || dy !== 0)\<close> loop; \<open>v & 0xFF\<close> is the low byte of
  the two's complement of \<open>v\<close>.\<close>

function expSplit :: "stitchKind \<Rightarrow> int \<Rightarrow> int \<Rightarrow> expState \<Rightarrow> expState" where
  "expSplit k dx dy st =
    (if dx \<noteq> 0 \<or> dy \<noteq> 0 then
       (let stepX = clampStep EXP_MAX_STEP dx;
            stepY = clampStep EXP_MAX_STEP dy;
            st1 = (if k = KJump
                   then writeBytes [0x80, 0x04, word_of_int stepX, word_of_int stepY] st
                   else writeBytes [word_of_int stepX, word_of_int stepY] st)
        in expSplit k (dx - stepX) (dy - stepY)
             (st1\<lparr>expCurrentX := expCurrentX st1 + stepX, expCurrentY := expCurrentY st1 + stepY\<rparr>))
     else st)"
  by pat_completeness auto
termination
  by (relation "measure (\<lambda>(k, dx, dy, st). nat (\<bar>dx\<bar> + \<bar>dy\<bar>))")
     (auto simp: EXP_MAX_STEP_def clampStep_def)

text \<open>One iteration of the \<open>for\<close> loop of \<open>createExpFile\<close>.\<close>

definition expStep :: "expState \<Rightarrow> stitch \<Rightarrow> expState" where
  "expStep st s =
    (if stype s = KEnd then writeBytes [0x80, 0x01, 0x00, 0x00] st
     else if stype s = KColorChange then writeBytes [0x80, 0x01, 0x00, 0x00] st
     else if stype s = KTrim then
       writeBytes [0x80, 0x04, 0, 0, 0x80, 0x04, 0, 0, 0x80, 0x04, 0, 0] st
     else
       (let targetX = jsRound (px s * 10);
            targetY = jsRound (py s * 10)
        in expSplit (stype s) (targetX - expCurrentX st) (targetY - expCurrentY st) st))"

definition expInit :: expState where
  "expInit = \<lparr>expCurrentX = 0, expCurrentY = 0, written = []\<rparr>"

definition expLoop :: "stitch list \<Rightarrow> expState" where
  "expLoop stitches = foldl expStep expInit stitches"

text \<open>The buffer has \<open>stitches.length * 8 + 1024\<close> bytes; a store past its end is
  dropped and \<open>slice(0, offset)\<close> stops at its end.\<close>

definition createExpFile :: "stitch list \<Rightarrow> byte list" where
  "createExpFile stitches = take (length stitches * 8 + 1024) (written (expLoop stitches))"

text \<open>A stitch record with the optional fields left out.\<close>

definition mkStitch :: "real \<Rightarrow> real \<Rightarrow> stitchKind \<Rightarrow> stitch" where
  "mkStitch a b k = \<lparr>px = a, py = b, stype = k, colorIndex = None, hexColor = None,
                     isStructure = None\<rparr>"

text \<open>Concrete stitch lists: scenario S4 of the specification, and a list with a jump
  of 30 mm that the DST encoder has to split.\<close>

definition scenarioS4 :: "stitch list" where
  "scenarioS4 = [mkStitch 0 0 KStitch, mkStitch 5.0 (- 3.2) KStitch, mkStitch 5.0 (- 3.2) KEnd]"

definition longJump :: "stitch list" where
  "longJump = [mkStitch 0 0 KStitch, mkStitch 30 0 KJump, mkStitch 30 0 KEnd]"

section \<open>Invariants of the composed sequence\<close>

text \<open>The records a generator emits are stitches and jumps only.\<close>

definition plainKinds :: "stitch list \<Rightarrow> bool" where
  "plainKinds ss = (\<forall>s \<in> set ss. stype s = KStitch \<or> stype s = KJump)"

text \<open>No record of a list is an end record.\<close>

definition noEnd :: "stitch list \<Rightarrow> bool" where
  "noEnd ss = (\<forall>s \<in> set ss. stype s \<noteq> KEnd)"

text \<open>
  \<open>trimsFollowed n ks\<close>: in the list of kinds \<open>ks\<close>, which comes after \<open>n\<close> trims in
  a row, every trim is followed at once by a jump, a colour change or the end, or by one
  second trim that is followed at once by a jump; the list does not end in a trim.
  An \<open>undefined\<close> entry has no kind (\<open>None\<close>).
\<close>

fun trimsFollowed :: "nat \<Rightarrow> stitchKind option list \<Rightarrow> bool" where
  "trimsFollowed n [] = (n = 0)"
| "trimsFollowed n (k # ks) =
     (if k = Some KTrim then n < 2 \<and> trimsFollowed (Suc n) ks
      else (n = 0 \<or> (n = 1 \<and> (k = Some KJump \<or> k = Some KColorChange \<or> k = Some KEnd))
                  \<or> (n = 2 \<and> k = Some KJump))
           \<and> trimsFollowed 0 ks)"

text \<open>The same reading of a list as a run: the number of trims the list ends in, or
  \<open>None\<close> once a trim is followed by something else than allowed.\<close>

fun trimRun :: "nat \<Rightarrow> stitchKind option list \<Rightarrow> nat option" where
  "trimRun n [] = Some n"
| "trimRun n (k # ks) =
     (if k = Some KTrim then (if n < 2 then trimRun (Suc n) ks else None)
      else if n = 0 \<or> (n = 1 \<and> (k = Some KJump \<or> k = Some KColorChange \<or> k = Some KEnd))
                   \<or> (n = 2 \<and> k = Some KJump)
           then trimRun 0 ks else None)"

definition kindsOf :: "stitch list \<Rightarrow> stitchKind option list" where
  "kindsOf ss = map (\<lambda>s. Some (stype s)) ss"

text \<open>A list that is still being composed may end in one trim, the one of a tie-off.\<close>

definition openTrims :: "stitch list \<Rightarrow> bool" where
  "openTrims ss = (trimRun 0 (kindsOf ss) = Some 0 \<or> trimRun 0 (kindsOf ss) = Some 1)"

section \<open>Concrete configurations and paths\<close>

text \<open>Scenario S1 of the specification: the path from (0,0) to (10,0) with a maximum
  stitch length of 2.5 mm.\<close>

definition baseConfig :: processingConfig where
  "baseConfig = \<lparr>designStyle = Vintage, widthMm = 100, stitchType = Running, densityMm = 0.4,
     satinColumnWidthMm = 2, pullCompensationMm = 0, enableUnderlay = False, tatamiAngle = 45,
     maxStitchLengthMm = 2.5, minStitchLengthMm = 0.3, trimJumpDistanceMm = 2, colorCount = 1\<rparr>"

definition pathS1 :: "point list" where
  "pathS1 = [mkPoint 0 0, mkPoint 10 0]"

text \<open>
  Two more polylines on the x axis. In \<open>boundaryPath\<close> the second point is exactly
  0.01 mm from the first. In \<open>nearPath\<close> the second point is exactly 0.01 mm from the
  first, and the third is 0.002 mm from the second and 0.012 mm from the first. And a
  configuration with a maximum stitch length of 4 mm.
\<close>

definition boundaryPath :: "point list" where
  "boundaryPath = [mkPoint 0 0, mkPoint (1 / 100) 0, mkPoint 10 0]"

definition nearPath :: "point list" where
  "nearPath = [mkPoint 0 0, mkPoint (1 / 100) 0, mkPoint (3 / 250) 0, mkPoint (1503 / 250) 0]"

definition longRunConfig :: processingConfig where
  "longRunConfig = baseConfig\<lparr>maxStitchLengthMm := 4\<rparr>"

text \<open>
  A design of one black layer with two short paths on the x axis, 9 mm apart, and what
  the pipeline returns for it with running stitches and no underlay; and a configuration
  with a zero density and a zero maximum stitch length.
\<close>

definition rowStitch :: "real \<Rightarrow> stitchKind \<Rightarrow> bool option \<Rightarrow> stitch" where
  "rowStitch a k st = \<lparr>px = a, py = 0, stype = k, colorIndex = Some 0, hexColor = Some ''#000000'',
                        isStructure = st\<rparr>"

definition twoPathLayers :: "vectorLayer list" where
  "twoPathLayers = [\<lparr>layerColor = ''#000000'',
                     layerPaths = [[mkPoint 0 0, mkPoint 1 0], [mkPoint 10 0, mkPoint 11 0]]\<rparr>]"

definition twoPathDesign :: "entry list" where
  "twoPathDesign =
    [Record (rowStitch (1 / 2) KStitch (Some True)), Record (rowStitch 0 KStitch (Some True)),
     Record (rowStitch 0 KStitch None), Record (rowStitch 1 KStitch None),
     Record (rowStitch (1 / 2) KStitch (Some True)), Record (rowStitch 1 KStitch (Some True)),
     Record (rowStitch 1 KTrim (Some True)),
     Record (rowStitch 1 KTrim (Some True)), Record (rowStitch (21 / 2) KJump (Some True)),
     Record (rowStitch (21 / 2) KStitch (Some True)), Record (rowStitch 10 KStitch (Some True)),
     Record (rowStitch 10 KStitch None), Record (rowStitch 11 KStitch None),
     Record (rowStitch (21 / 2) KStitch (Some True)), Record (rowStitch 11 KStitch (Some True)),
     Record (rowStitch 11 KTrim (Some True)),
     Record (rowStitch 11 KEnd (Some True))]"

definition twoPathStitches :: "stitch list" where
  "twoPathStitches =
    [rowStitch (1 / 2) KStitch (Some True), rowStitch 0 KStitch (Some True),
     rowStitch 0 KStitch None, rowStitch 1 KStitch None,
     rowStitch (1 / 2) KStitch (Some True), rowStitch 1 KStitch (Some True),
     rowStitch 1 KTrim (Some True),
     rowStitch 1 KTrim (Some True), rowStitch (21 / 2) KJump (Some True),
     rowStitch (21 / 2) KStitch (Some True), rowStitch 10 KStitch (Some True),
     rowStitch 10 KStitch None, rowStitch 11 KStitch None,
     rowStitch (21 / 2) KStitch (Some True), rowStitch 11 KStitch (Some True),
     rowStitch 11 KTrim (Some True)]"

definition zeroConfig :: processingConfig where
  "zeroConfig = baseConfig\<lparr>densityMm := 0, maxStitchLengthMm := 0\<rparr>"

definition plainRunning :: "processingConfig \<Rightarrow> bool" where
  "plainRunning cfg = (\<not> enableUnderlay cfg \<and> stitchType cfg = Running \<and> runLength cfg = 5 / 2
                       \<and> trimJumpDistanceMm cfg = 2 \<and> minStitchLengthMm cfg = 3 / 10)"

text \<open>
  A spine with a sharp corner at its third point: three segments of 625 mm, the last one
  turning back by about 147 degrees. All coordinates are integers and all segment lengths
  are integers, so the resampling every 625 mm is exact in floating point as well. With it
  a satin configuration with a column of 5 mm, and the same configuration with a density
  of zero and a spine of two equal points.
\<close>

definition sharpSpine :: "point list" where
  "sharpSpine = [mkPoint (- 625) 0, mkPoint 0 0, mkPoint 625 0, mkPoint 98 336]"

definition sharpResampled :: "point list" where
  "sharpResampled = [mkPoint (- 625) 0, mkPoint 0 0, mkPoint 625 0, mkPoint 98 336, mkPoint 98 336]"

definition sharpConfig :: processingConfig where
  "sharpConfig = baseConfig\<lparr>stitchType := Satin, densityMm := 625, satinColumnWidthMm := 5,
                              maxStitchLengthMm := 20\<rparr>"

definition zeroDensityConfig :: processingConfig where
  "zeroDensityConfig = sharpConfig\<lparr>densityMm := 0\<rparr>"

definition pointSpine :: "point list" where
  "pointSpine = [mkPoint 1 1, mkPoint 1 1]"

text \<open>A satin configuration with a column width and a maximum stitch length of zero, and
  a tatami configuration; a layer whose only path has no point.\<close>

definition flatSatinConfig :: processingConfig where
  "flatSatinConfig = baseConfig\<lparr>stitchType := Satin, satinColumnWidthMm := 0, maxStitchLengthMm := 0\<rparr>"

definition emptyPathLayers :: "vectorLayer list" where
  "emptyPathLayers = [\<lparr>layerColor = ''#000000'', layerPaths = [[]]\<rparr>]"

definition tatamiConfig :: processingConfig where
  "tatamiConfig = baseConfig\<lparr>stitchType := Tatami\<rparr>"


section \<open>Properties of the path sequencing\<close>


lemma bestInv_scanVertex:
  assumes "bestInv h ps b S" and "\<forall>(j, w) \<in> S. j < i \<or> (j = i \<and> w < v)"
  shows "bestInv h ps (scanVertex h (ps ! i) i b v) (insert (i, v) S)"
proof (cases b)
  case None
  with assms show ?thesis by (simp add: bestInv_def scanVertex_def)
next
  case (Some t)
  obtain d bi bv where t: "t = (d, bi, bv)" by (cases t)
  show ?thesis
  proof (cases "distSq h (ps ! i ! v) < d")
    case True
    with assms Some t show ?thesis
      by (fastforce simp: bestInv_def scanVertex_def)
  next
    case False
    with assms Some t show ?thesis
      by (fastforce simp: bestInv_def scanVertex_def)
  qed
qed

lemma bestInv_inner:
  assumes "bestInv h ps b S" and "\<forall>(j, w) \<in> S. j < i"
  shows "bestInv h ps (foldl (scanVertex h (ps ! i) i) b [0..<m]) (S \<union> {i} \<times> {..<m})"
proof (induction m)
  case 0
  with assms show ?case by simp
next
  case (Suc m)
  have o: "\<forall>(j, w) \<in> S \<union> {i} \<times> {..<m}. j < i \<or> (j = i \<and> w < m)"
    using assms(2) by auto
  have e: "insert (i, m) (S \<union> {i} \<times> {..<m}) = S \<union> {i} \<times> {..<Suc m}"
    by (auto simp: less_Suc_eq)
  from bestInv_scanVertex [OF Suc o] show ?case
    by (simp add: e)
qed

lemma bestInv_outer:
  "bestInv h ps (foldl (scanPath h ps) None [0..<n]) {(i, v). i < n \<and> v < length (ps ! i) - 1}"
proof (induction n)
  case 0
  show ?case by (simp add: bestInv_def)
next
  case (Suc n)
  have o: "\<forall>(j, w) \<in> {(i, v). i < n \<and> v < length (ps ! i) - 1}. j < n" by auto
  have e: "{(i, v). i < n \<and> v < length (ps ! i) - 1} \<union> {n} \<times> {..<length (ps ! n) - 1}
           = {(i, v). i < Suc n \<and> v < length (ps ! i) - 1}"
    by (auto simp: less_Suc_eq)
  have "foldl (scanPath h ps) None [0..<Suc n]
        = foldl (scanVertex h (ps ! n) n) (foldl (scanPath h ps) None [0..<n])
            [0..<length (ps ! n) - 1]"
    by (simp add: scanPath_def)
  with bestInv_inner [OF Suc o, of "length (ps ! n) - 1"] show ?case
    unfolding e by simp
qed

lemma findBest_inv:
  "bestInv h ps (findBest h ps) {(i, v). i < length ps \<and> v < length (ps ! i) - 1}"
  unfolding findBest_def by (rule bestInv_outer)


lemma find_append_Some:
  "find P (xs @ ys) = (case find P xs of None \<Rightarrow> find P ys | Some x \<Rightarrow> Some x)"
  by (induction xs) simp_all

lemma find_row:
  "v < m \<Longrightarrow> P (i, v) \<Longrightarrow> \<forall>w < v. \<not> P (i, w) \<Longrightarrow> find P (map (Pair i) [0..<m]) = Some (i, v)"
proof (induction m)
  case 0
  then show ?case by simp
next
  case (Suc m)
  show ?case
  proof (cases "v < m")
    case True
    from Suc.IH [OF True Suc.prems(2,3)] show ?thesis by (simp add: find_append_Some)
  next
    case False
    then have v: "v = m" using Suc.prems(1) by simp
    have "find P (map (Pair i) [0..<m]) = None"
      using Suc.prems(3) v by (auto simp: find_None_iff)
    then show ?thesis using Suc.prems(2) v by (simp add: find_append_Some)
  qed
qed

lemma find_rows:
  assumes "i < n" "v < len i" "P (i, v)"
    and "\<forall>j w. j < n \<and> w < len j \<and> (j < i \<or> (j = i \<and> w < v)) \<longrightarrow> \<not> P (j, w)"
  shows "find P (concat (map (\<lambda>j. map (Pair j) [0..<len j]) [0..<n])) = Some (i, v)"
  using assms(1,4)
proof (induction n)
  case 0
  then show ?case by simp
next
  case (Suc n)
  show ?case
  proof (cases "i < n")
    case True
    have "find P (concat (map (\<lambda>j. map (Pair j) [0..<len j]) [0..<n])) = Some (i, v)"
      using Suc.IH [OF True] Suc.prems(2) by (simp add: less_Suc_eq)
    then show ?thesis by (simp add: find_append_Some)
  next
    case False
    then have i: "i = n" using Suc.prems(1) by simp
    have "find P (concat (map (\<lambda>j. map (Pair j) [0..<len j]) [0..<n])) = None"
      using Suc.prems(2) i by (auto simp: find_None_iff)
    moreover have "find P (map (Pair n) [0..<len n]) = Some (n, v)"
      using find_row [of v "len n" P n] assms(2,3) Suc.prems(2) i by auto
    ultimately show ?thesis using i by (simp add: find_append_Some)
  qed
qed

lemma set_vertexCandidates:
  "(j, w) \<in> set (vertexCandidates ps) \<longleftrightarrow> j < length ps \<and> w < length (ps ! j)"
  by (force simp: vertexCandidates_def)

lemma closed_nth_last: "closedPolygon p \<Longrightarrow> p ! (length p - 1) = p ! 0"
proof -
  assume a: "closedPolygon p"
  then have "p \<noteq> []" by (auto simp: closedPolygon_def)
  then have "last p = p ! (length p - 1)" "hd p = p ! 0"
    by (simp_all add: last_conv_nth hd_conv_nth)
  with a show ?thesis by (simp add: closedPolygon_def)
qed

lemma findBest_is_nearestVertex:
  assumes c: "\<forall>p \<in> set ps. closedPolygon p" and ne: "ps \<noteq> []"
  shows "\<exists>d i v. findBest h ps = Some (d, i, v) \<and> nearestVertex h ps = Some (i, v)
               \<and> i < length ps \<and> v < length (ps ! i) - 1"
proof -
  let ?C = "{(i, v). i < length ps \<and> v < length (ps ! i) - 1}"
  let ?f = "\<lambda>j w. distSq h (ps ! j ! w)"
  have len: "\<And>j. j < length ps \<Longrightarrow> 2 \<le> length (ps ! j)"
    using c by (auto simp: closedPolygon_def)
  have "(0, 0) \<in> ?C" using ne len [of 0] by auto
  then have "?C \<noteq> {}" by blast
  then have "findBest h ps \<noteq> None"
    using findBest_inv [of h ps] unfolding bestInv_def by (cases "findBest h ps") auto
  then obtain d i v where b: "findBest h ps = Some (d, i, v)" by (cases "findBest h ps") auto
  from findBest_inv [of h ps] b
  have iv: "i < length ps" "v < length (ps ! i) - 1" and d: "d = ?f i v"
    and mn: "\<And>j w. j < length ps \<Longrightarrow> w < length (ps ! j) - 1 \<Longrightarrow> d \<le> ?f j w"
    and fst: "\<And>j w. j < length ps \<Longrightarrow> w < length (ps ! j) - 1 \<Longrightarrow>
               j < i \<or> (j = i \<and> w < v) \<Longrightarrow> d < ?f j w"
    by (auto simp: bestInv_def)
  have lastv: "\<And>j. j < length ps \<Longrightarrow> ?f j (length (ps ! j) - 1) = ?f j 0"
    using c closed_nth_last by (metis nth_mem)
  have mn': "d \<le> ?f j w" if "j < length ps" "w < length (ps ! j)" for j w
  proof (cases "w < length (ps ! j) - 1")
    case True
    then show ?thesis using mn that by simp
  next
    case False
    then have "w = length (ps ! j) - 1" using that by simp
    then show ?thesis using lastv [OF that(1)] mn [of j 0] len [OF that(1)] that(1) by simp
  qed
  have fst': "d < ?f j w" if "j < length ps" "w < length (ps ! j)" "j < i \<or> (j = i \<and> w < v)" for j w
  proof (cases "w < length (ps ! j) - 1")
    case True
    then show ?thesis using fst that by simp
  next
    case False
    then have w: "w = length (ps ! j) - 1" using that by simp
    with that(3) iv have "j < i" by auto
    then have "d < ?f j 0" using fst [of j 0] len [OF that(1)] that(1) by simp
    then show ?thesis using lastv [OF that(1)] w by simp
  qed
  let ?P = "\<lambda>(i, v). list_all (\<lambda>(j, w). ?f i v \<le> ?f j w) (vertexCandidates ps)"
  have P: "?P (i, v)"
    using mn' d by (auto simp: list_all_iff set_vertexCandidates)
  have nP: "\<forall>j w. j < length ps \<and> w < length (ps ! j) \<and> (j < i \<or> (j = i \<and> w < v)) \<longrightarrow> \<not> ?P (j, w)"
  proof (intro allI impI)
    fix j w
    assume a: "j < length ps \<and> w < length (ps ! j) \<and> (j < i \<or> (j = i \<and> w < v))"
    then have "d < ?f j w" using fst' by blast
    moreover have "(i, v) \<in> set (vertexCandidates ps)" using iv by (simp add: set_vertexCandidates)
    ultimately show "\<not> ?P (j, w)" using d by (force simp: list_all_iff)
  qed
  have "find ?P (concat (map (\<lambda>j. map (Pair j) [0..<length (ps ! j)]) [0..<length ps])) = Some (i, v)"
    by (rule find_rows [OF iv(1) _ P nP]) (use iv in simp)
  then have "nearestVertex h ps = Some (i, v)"
    by (simp add: nearestVertex_def vertexCandidates_def)
  with b iv show ?thesis by blast
qed


lemma reorder_is_rotateClosed:
  assumes "closedPolygon p" "v < length p - 1"
  shows "reorderPolygonToStartAt p v = rotateClosed p v"
proof (cases "v = 0")
  case True
  have "p \<noteq> []" using assms by (auto simp: closedPolygon_def)
  then have "butlast p @ [last p] = p" by simp
  moreover have "last p = p ! 0" using assms \<open>p \<noteq> []\<close> by (simp add: closedPolygon_def hd_conv_nth)
  ultimately show ?thesis using True by (simp add: reorderPolygonToStartAt_def rotateClosed_def)
next
  case False
  let ?u = "butlast p"
  have v: "v < length ?u" using assms by simp
  then have r: "rotate v ?u = drop v ?u @ take v ?u" by (simp add: rotate_drop_take)
  have "hd (drop v ?u @ take v ?u) = ?u ! v" using v by (simp add: hd_append hd_drop_conv_nth)
  also have "\<dots> = p ! v" using v by (simp add: nth_butlast)
  finally show ?thesis using False r
    by (simp add: reorderPolygonToStartAt_def rotateClosed_def Let_def)
qed

lemma closed_rotateClosed:
  assumes "closedPolygon p" "v < length p - 1"
  shows "closedPolygon (rotateClosed p v)"
proof -
  let ?u = "butlast p"
  have v: "v < length ?u" using assms by simp
  have "?u \<noteq> []"
  proof
    assume "?u = []"
    then have "length ?u = 0" by (simp only: list.size)
    with v show False by (simp only: not_less_zero)
  qed
  then have "rotate v ?u \<noteq> []" by simp
  then have "hd (rotate v ?u @ [p ! v]) = hd (rotate v ?u)" by simp
  also have "\<dots> = ?u ! v" using v by (simp add: hd_rotate_conv_nth \<open>?u \<noteq> []\<close>)
  also have "\<dots> = p ! v" using v by (simp add: nth_butlast)
  finally show ?thesis using assms by (simp add: closedPolygon_def rotateClosed_def)
qed

lemma set_spliceOut: "set (spliceOut i xs) \<subseteq> set xs"
  by (auto simp: spliceOut_def dest: in_set_takeD in_set_dropD)

lemma length_spliceOut: "i < length xs \<Longrightarrow> length (spliceOut i xs) = length xs - 1"
  by (simp add: spliceOut_def)

lemma mset_spliceOut: "i < length xs \<Longrightarrow> mset (xs ! i # spliceOut i xs) = mset xs"
proof -
  assume "i < length xs"
  then have "take i xs @ xs ! i # drop (Suc i) xs = xs" by (simp add: id_take_nth_drop [symmetric])
  then have "mset (take i xs @ xs ! i # drop (Suc i) xs) = mset xs" by (simp only:)
  moreover have "mset (take i xs @ xs ! i # drop (Suc i) xs) = mset (xs ! i # take i xs @ drop (Suc i) xs)"
    by simp
  ultimately show ?thesis by (simp only: spliceOut_def)
qed

lemma optimizeLoop_is_rounds:
  "\<forall>p \<in> set rem. closedPolygon p \<Longrightarrow>
   optimizeLoop rem h acc = acc @ nearestJoinRounds (length rem) h rem"
proof (induction "length rem" arbitrary: rem h acc)
  case 0
  then show ?case by (subst optimizeLoop.simps) simp
next
  case (Suc n)
  then have ne: "rem \<noteq> []" by auto
  from findBest_is_nearestVertex [OF Suc.prems ne, of h] obtain d i v where
    b: "findBest h rem = Some (d, i, v)" and s: "nearestVertex h rem = Some (i, v)"
    and i: "i < length rem" and v: "v < length (rem ! i) - 1" by blast
  have ci: "closedPolygon (rem ! i)" using Suc.prems i by simp
  have r: "reorderPolygonToStartAt (rem ! i) v = rotateClosed (rem ! i) v"
    by (rule reorder_is_rotateClosed [OF ci v])
  have l: "n = length (spliceOut i rem)" using Suc.hyps(2) i by (simp add: length_spliceOut)
  have c': "\<forall>p \<in> set (spliceOut i rem). closedPolygon p"
    using Suc.prems set_spliceOut [of i rem] by (meson subsetD)
  have "optimizeLoop rem h acc
        = optimizeLoop (spliceOut i rem) (last (rotateClosed (rem ! i) v))
            (acc @ [rotateClosed (rem ! i) v])"
    apply (subst optimizeLoop.simps)
    apply (simp only: ne if_False b option.case prod.case Let_def r)
    done
  also have "\<dots> = (acc @ [rotateClosed (rem ! i) v])
        @ nearestJoinRounds n (last (rotateClosed (rem ! i) v)) (spliceOut i rem)"
    using Suc.hyps(1) [OF l c'] by (simp only: l [symmetric])
  also have "\<dots> = acc @ nearestJoinRounds (Suc n) h rem"
    by (simp add: s)
  finally show ?case by (simp only: Suc.hyps(2))
qed


lemma rounds_permutation:
  "\<forall>p \<in> set rem. closedPolygon p \<Longrightarrow>
   \<exists>qs. mset qs = mset rem
       \<and> list_all2 (\<lambda>out p. closedPolygon out \<and> (\<exists>v < length p - 1. out = rotateClosed p v))
           (nearestJoinRounds (length rem) h rem) qs"
proof (induction "length rem" arbitrary: rem h)
  case 0
  then show ?case by simp
next
  case (Suc n)
  then have ne: "rem \<noteq> []" by auto
  from findBest_is_nearestVertex [OF Suc.prems ne, of h] obtain d i v where
    s: "nearestVertex h rem = Some (i, v)"
    and i: "i < length rem" and v: "v < length (rem ! i) - 1" by blast
  have ci: "closedPolygon (rem ! i)" using Suc.prems i by simp
  have l: "n = length (spliceOut i rem)" using Suc.hyps(2) i by (simp add: length_spliceOut)
  have c': "\<forall>p \<in> set (spliceOut i rem). closedPolygon p"
    using Suc.prems set_spliceOut [of i rem] by (meson subsetD)
  from Suc.hyps(1) [OF l c', of "last (rotateClosed (rem ! i) v)"] obtain qs where
    qs: "mset qs = mset (spliceOut i rem)"
      "list_all2 (\<lambda>out p. closedPolygon out \<and> (\<exists>v < length p - 1. out = rotateClosed p v))
         (nearestJoinRounds n (last (rotateClosed (rem ! i) v)) (spliceOut i rem)) qs"
    unfolding l [symmetric] by blast
  have "mset (rem ! i # qs) = add_mset (rem ! i) (mset (spliceOut i rem))"
    using qs(1) by (simp only: mset.simps)
  also have "\<dots> = mset (rem ! i # spliceOut i rem)" by (simp only: mset.simps)
  also have "\<dots> = mset rem" by (rule mset_spliceOut [OF i])
  finally have m: "mset (rem ! i # qs) = mset rem" .
  have "list_all2 (\<lambda>out p. closedPolygon out \<and> (\<exists>v < length p - 1. out = rotateClosed p v))
         (nearestJoinRounds (Suc n) h rem) (rem ! i # qs)"
    using qs(2) closed_rotateClosed [OF ci v] v by (auto simp: s)
  then have "list_all2 (\<lambda>out p. closedPolygon out \<and> (\<exists>v < length p - 1. out = rotateClosed p v))
         (nearestJoinRounds (length rem) h rem) (rem ! i # qs)"
    by (simp only: Suc.hyps(2))
  with m show ?case by blast
qed

text \<open>
  Claim C9, as amended. For every list of closed polygons that have at least two points
  (the first equal to the last), \<open>optimizePathSequence\<close> returns what the
  nearest-join sequencing of the specification returns: in each round the polygon and
  vertex chosen are the first, in iteration order, whose squared distance to the head
  (the origin at first, then the last point of the polygon just emitted) is minimal
  over all vertices of all remaining polygons, and the polygon is emitted rotated to
  start and end at that vertex. The output is a permutation of the input up to these
  rotations, and every emitted polygon is closed.
\<close>

theorem optimizePathSequence_nearest_join:
  assumes "\<forall>p \<in> set paths. closedPolygon p"
  shows "optimizePathSequence paths = nearestJoin paths
       \<and> (\<exists>qs. mset qs = mset paths
             \<and> list_all2 (\<lambda>out p. closedPolygon out \<and> (\<exists>v < length p - 1. out = rotateClosed p v))
                 (optimizePathSequence paths) qs)"
proof -
  have e: "optimizePathSequence paths = nearestJoin paths"
    using optimizeLoop_is_rounds [OF assms, where h = "mkPoint 0 0" and acc = "[]"]
    by (simp add: optimizePathSequence_def nearestJoin_def)
  from rounds_permutation [OF assms, where h = "mkPoint 0 0"] e show ?thesis
    by (simp add: nearestJoin_def)
qed


theorem optimizePathSequence_nearest_join_witness:
  "list_all closedPolygon threeLoops
   \<and> optimizePathSequence threeLoops = nearestJoin threeLoops
   \<and> optimizePathSequence threeLoops =
       [[mkPoint 1 0, mkPoint 3 0, mkPoint 1 1, mkPoint 1 0],
        [mkPoint 5 5, mkPoint 6 5, mkPoint 6 6, mkPoint 5 5],
        [mkPoint 6 6, mkPoint 7 7, mkPoint 6 7, mkPoint 6 6]]"
proof -
  have c: "\<forall>p \<in> set threeLoops. closedPolygon p"
    by (simp add: threeLoops_def closedPolygon_def)
  have v: "optimizePathSequence threeLoops =
       [[mkPoint 1 0, mkPoint 3 0, mkPoint 1 1, mkPoint 1 0],
        [mkPoint 5 5, mkPoint 6 5, mkPoint 6 6, mkPoint 5 5],
        [mkPoint 6 6, mkPoint 7 7, mkPoint 6 7, mkPoint 6 6]]"
    by code_simp
  from optimizePathSequence_nearest_join [OF c] c v show ?thesis
    by (simp add: list_all_iff)
qed

text \<open>
  Claim C9 as stated covers the one-point polygon, whose first point is its last. The
  search leaves out the last vertex of every polygon, so the only vertex of such a
  polygon is never a candidate: here the polygon at the origin is emitted last, after a
  polygon whose start is at squared distance 50 from the head.
\<close>

theorem optimizePathSequence_counterexample:
  "hd (degeneratePaths ! 0) = last (degeneratePaths ! 0)
   \<and> hd (degeneratePaths ! 1) = last (degeneratePaths ! 1)
   \<and> optimizePathSequence degeneratePaths = [degeneratePaths ! 1, degeneratePaths ! 0]
   \<and> distSq (mkPoint 0 0) (degeneratePaths ! 0 ! 0)
       < distSq (mkPoint 0 0) (hd (hd (optimizePathSequence degeneratePaths)))
   \<and> optimizePathSequence degeneratePaths \<noteq> nearestJoin degeneratePaths"
  by code_simp


section \<open>Properties of the running-stitch generator\<close>

lemma dist_pt_nonneg [simp]: "0 \<le> dist_pt p q"
  by (simp add: dist_pt_def)

lemma px_mkPoint [simp]: "px (mkPoint a b) = a" and py_mkPoint [simp]: "py (mkPoint a b) = b"
  by (simp_all add: mkPoint_def)

lemma mkPoint_eta [simp]: "mkPoint (px (q :: point)) (py q) = q"
  by (simp add: mkPoint_def)

lemma pointOf_genStitch [simp]: "pointOf (genStitch (p :: point) k c h s) = p"
  by (simp add: pointOf_def genStitch_def)

lemma dist_interpolate:
  "dist_pt (interpolatePoints p q s) (interpolatePoints p q t) = \<bar>s - t\<bar> * dist_pt p q"
proof -
  have "(px p + (px q - px p) * s - (px p + (px q - px p) * t))\<^sup>2
        + (py p + (py q - py p) * s - (py p + (py q - py p) * t))\<^sup>2
        = (s - t)\<^sup>2 * ((px p - px q)\<^sup>2 + (py p - py q)\<^sup>2)"
    by (simp add: power2_eq_square algebra_simps)
  then show ?thesis
    by (simp add: dist_pt_def interpolatePoints_def real_sqrt_mult)
qed

lemma upto_as_upt: "[1..int n] = map int [1..<Suc n]"
proof (induction n)
  case 0
  show ?case by simp
next
  case (Suc n)
  have "[1..int (Suc n)] = [1..int (Suc n) - 1] @ [int (Suc n)]"
    by (rule upto_rec2) simp
  with Suc show ?case by simp
qed

lemma interpolate_one [simp]: "interpolatePoints p (q :: point) 1 = q"
  by (simp add: interpolatePoints_def)

lemma equalSplit_interpolate:
  "0 < n \<Longrightarrow> equalSplit p q n = map (\<lambda>k. interpolatePoints p q (real k / real n)) [1..<Suc n]"
  by (simp add: equalSplit_def interpolatePoints_def)

lemma steps_ge:
  assumes "0 < L" "L < d"
  shows "1 < \<lceil>d / L\<rceil>"
proof -
  have "1 < d / L" using assms by simp
  then show ?thesis by (simp add: less_ceiling_iff)
qed

lemma runSegment_spec:
  assumes "0 < L"
  shows "map pointOf (runSegment L c h p q) = specSegment L p q"
proof (cases "dist_pt p q > L")
  case False
  then show ?thesis by (simp add: runSegment_def specSegment_def)
next
  case True
  let ?n = "nat \<lceil>dist_pt p q / L\<rceil>"
  have n: "1 < \<lceil>dist_pt p q / L\<rceil>" by (rule steps_ge [OF assms True])
  then have i: "\<lceil>dist_pt p q / L\<rceil> = int ?n" and pos: "0 < ?n" by simp_all
  have "map pointOf (runSegment L c h p q)
        = map (\<lambda>s. interpolatePoints p q (of_int s / of_int (int ?n))) [1..int ?n]"
    using True i by (simp add: runSegment_def Let_def o_def)
  also have "\<dots> = map (\<lambda>k. interpolatePoints p q (real k / real ?n)) [1..<Suc ?n]"
    by (simp only: upto_as_upt map_map o_def of_int_of_nat_eq)
  also have "\<dots> = equalSplit p q ?n" by (rule equalSplit_interpolate [OF pos, symmetric])
  finally show ?thesis using True by (simp add: specSegment_def)
qed


lemma chainWithin_append:
  "chainWithin b p (xs @ ys) = (chainWithin b p xs \<and> chainWithin b (last (p # xs)) ys)"
  by (induction xs arbitrary: p) simp_all

lemma chainWithin_steps:
  assumes "\<And>k. dist_pt (r k) (r (Suc k)) \<le> b"
  shows "chainWithin b (r j) (map r [Suc j..<m])"
proof (induction "m - j" arbitrary: j)
  case 0
  then show ?case by simp
next
  case (Suc d)
  show ?case
  proof (cases "Suc j < m")
    case True
    then have "[Suc j..<m] = Suc j # [Suc (Suc j)..<m]" by (simp add: upt_conv_Cons)
    moreover have "chainWithin b (r (Suc j)) (map r [Suc (Suc j)..<m])"
      using Suc.hyps(1) [of "Suc j"] Suc.hyps(2) by simp
    ultimately show ?thesis using assms by simp
  next
    case False
    then show ?thesis by simp
  qed
qed

lemma step_fraction: "real k / x - real (Suc k) / x = - (1 / x)"
  by (simp add: diff_divide_distrib [symmetric])

lemma specSegment_chain:
  assumes "0 < L"
  shows "chainWithin L p (specSegment L p q) \<and> last (p # specSegment L p q) = q"
proof (cases "dist_pt p q \<le> L")
  case True
  then show ?thesis by (simp add: specSegment_def)
next
  case False
  let ?d = "dist_pt p q"
  let ?n = "nat \<lceil>?d / L\<rceil>"
  let ?r = "\<lambda>k. interpolatePoints p q (real k / real ?n)"
  have n: "1 < \<lceil>?d / L\<rceil>" using steps_ge [OF assms] False by simp
  then have pos: "0 < ?n" by simp
  have "?d / L \<le> real_of_int \<lceil>?d / L\<rceil>" by (rule le_of_int_ceiling)
  also have "\<dots> = real ?n" using n by simp
  finally have "?d / L \<le> real ?n" .
  then have "?d \<le> real ?n * L" using assms by (simp only: pos_divide_le_eq)
  then have "?d \<le> L * real ?n" by (simp only: mult.commute)
  moreover have "0 < real ?n" using pos by simp
  ultimately have gap: "?d / real ?n \<le> L" by (simp only: pos_divide_le_eq)
  have step: "dist_pt (?r k) (?r (Suc k)) \<le> L" for k
  proof -
    have "dist_pt (?r k) (?r (Suc k)) = \<bar>- (1 / real ?n)\<bar> * ?d"
      by (simp only: dist_interpolate step_fraction)
    then have "dist_pt (?r k) (?r (Suc k)) = ?d / real ?n"
      by simp
    with gap show ?thesis by simp
  qed
  have r0: "?r 0 = p" by (simp add: interpolatePoints_def)
  have e: "specSegment L p q = map ?r [Suc 0..<Suc ?n]"
    using False equalSplit_interpolate [OF pos] by (simp add: specSegment_def)
  have "chainWithin L (?r 0) (map ?r [Suc 0..<Suc ?n])"
    by (rule chainWithin_steps) (rule step)
  moreover have "last (p # specSegment L p q) = q"
    using False by (simp add: specSegment_def equalSplit_def)
  ultimately show ?thesis using e r0 by simp
qed

lemma specSegment_nonempty [simp]: "specSegment L p q \<noteq> []"
  by (simp add: specSegment_def equalSplit_def)

lemma specSegments_chain:
  "0 < L \<Longrightarrow> chainWithin L c (specSegments L c cs)"
proof (induction cs arbitrary: c)
  case Nil
  then show ?case by simp
next
  case (Cons q qs)
  from specSegment_chain [OF Cons.prems, of c q] Cons.IH [OF Cons.prems, of q]
  show ?case by (simp add: chainWithin_append)
qed

lemma chainWithin_mono: "chainWithin b p xs \<Longrightarrow> b \<le> b' \<Longrightarrow> chainWithin b' p xs"
  by (induction xs arbitrary: p) auto

lemma segments_by_index:
  "concat (map (\<lambda>i. f ((c # q # qs) ! (i - 1)) ((c # q # qs) ! i)) [1..<Suc (Suc (length qs))])
   = f c q @ concat (map (\<lambda>i. f ((q # qs) ! (i - 1)) ((q # qs) ! i)) [1..<Suc (length qs)])"
proof -
  have u: "[1..<Suc (Suc (length qs))] = 1 # map Suc [1..<Suc (length qs)]"
    by (simp add: upt_conv_Cons map_Suc_upt del: upt_Suc)
  have "map (\<lambda>i. f ((c # q # qs) ! (i - 1)) ((c # q # qs) ! i)) [1..<Suc (Suc (length qs))]
        = f c q # map (\<lambda>i. f ((q # qs) ! (i - 1)) ((q # qs) ! i)) [1..<Suc (length qs)]"
    apply (simp only: u list.map map_map o_def)
    apply (auto simp: nth_Cons' simp del: upt_Suc)
    done
  then show ?thesis by (simp only: concat.simps)
qed

lemma running_points:
  "0 < L \<Longrightarrow>
   map pointOf (concat (map (\<lambda>i. runSegment L ci h ((c # cs) ! (i - 1)) ((c # cs) ! i))
                            [1..<Suc (length cs)]))
   = specSegments L c cs"
proof (induction cs arbitrary: c)
  case Nil
  then show ?case by simp
next
  case (Cons q qs)
  have "map pointOf (concat (map (\<lambda>i. runSegment L ci h ((c # q # qs) ! (i - 1)) ((c # q # qs) ! i))
                            [1..<Suc (Suc (length qs))]))
        = map pointOf (runSegment L ci h c q)
          @ map pointOf (concat (map (\<lambda>i. runSegment L ci h ((q # qs) ! (i - 1)) ((q # qs) ! i))
                            [1..<Suc (length qs)]))"
    by (simp only: segments_by_index map_append)
  also have "\<dots> = specSegment L c q @ specSegments L q qs"
    by (simp only: runSegment_spec [OF Cons.prems] Cons.IH [OF Cons.prems])
  finally show ?case by simp
qed

lemma runLength_pos: "0 < runLength config"
  by (simp add: runLength_def)

lemma length_foldl_cleanStep: "length (foldl cleanStep cp ps) \<le> length cp + length ps"
proof (induction ps arbitrary: cp)
  case Nil
  then show ?case by simp
next
  case (Cons p ps)
  have "length (cleanStep cp p) \<le> Suc (length cp)" by (simp add: cleanStep_def)
  with Cons [of "cleanStep cp p"] show ?case by simp
qed

lemma cleanPath_short: "2 \<le> length (cleanPath pathMm) \<Longrightarrow> 2 \<le> length pathMm"
  using length_foldl_cleanStep [of "[pathMm ! 0]" "tl pathMm"] by (simp add: cleanPath_def)

lemma running_generator_points:
  assumes "2 \<le> length (cleanPath pathMm)"
  shows "map pointOf (generateRunningStitches pathMm config colorIdx hex)
           = runningSpec (runLength config) (cleanPath pathMm)"
proof -
  let ?L = "runLength config"
  obtain c cs where cp: "cleanPath pathMm = c # cs" using assms by (cases "cleanPath pathMm") auto
  have len: "\<not> length pathMm < 2" using cleanPath_short [OF assms] by simp
  have l2: "\<not> length (cleanPath pathMm) < 2" using assms by simp
  have "map pointOf (generateRunningStitches pathMm config colorIdx hex)
        = c # map pointOf (concat (map (\<lambda>i. runSegment ?L colorIdx hex ((c # cs) ! (i - 1)) ((c # cs) ! i))
                                      [1..<Suc (length cs)]))"
    unfolding generateRunningStitches_def Let_def if_not_P [OF len] if_not_P [OF l2]
    by (simp add: cp del: upt_Suc)
  also have "\<dots> = c # specSegments ?L c cs"
    by (simp only: running_points [OF runLength_pos])
  finally show ?thesis by (simp add: runningSpec_def cp)
qed

lemma runningSpec_within:
  assumes "0 < L" "cp \<noteq> []"
  shows "consecutiveWithin (L + 1 / 10 ^ 6) (runningSpec L cp)"
proof -
  obtain c cs where cp: "cp = c # cs" using assms(2) by (cases cp) auto
  have "chainWithin (L + 1 / 10 ^ 6) c (specSegments L c cs)"
    by (rule chainWithin_mono [OF specSegments_chain [OF assms(1)]]) simp
  then show ?thesis by (simp add: runningSpec_def cp)
qed

text \<open>The code's length and cleaning loop against the wording of the specification.\<close>

lemma runLength_spec: "runLength config = specRunLength config"
  by (simp add: runLength_def specRunLength_def)

lemma foldl_cleanStep: "cp \<noteq> [] \<Longrightarrow> foldl cleanStep cp ps = cp @ keptAfter (last cp) ps"
proof (induction ps arbitrary: cp)
  case Nil
  show ?case by simp
next
  case (Cons p ps)
  show ?case
  proof (cases "dist_pt (last cp) p > 0.01")
    case True
    then have "foldl cleanStep cp (p # ps) = foldl cleanStep (cp @ [p]) ps" by (simp add: cleanStep_def)
    also have "\<dots> = (cp @ [p]) @ keptAfter p ps" using Cons.IH [of "cp @ [p]"] by simp
    finally show ?thesis using True by simp
  next
    case False
    then have "foldl cleanStep cp (p # ps) = foldl cleanStep cp ps" by (simp add: cleanStep_def)
    also have "\<dots> = cp @ keptAfter (last cp) ps" by (rule Cons.IH [OF Cons.prems])
    finally show ?thesis using False by simp
  qed
qed

lemma cleanPath_spec: "pathMm \<noteq> [] \<Longrightarrow> cleanPath pathMm = cleanedPolyline pathMm"
  by (cases pathMm) (simp_all add: cleanPath_def cleanedPolyline_def foldl_cleanStep)

text \<open>
  Claim C6, as amended. For every polyline that keeps at least two points when each point
  that lies at most 0.01 mm from the last point kept is removed (a point at exactly
  0.01 mm is removed too), the running-stitch generator emits the first cleaned point and
  then, for each segment of length \<open>d\<close>, the endpoint if \<open>d \<le> L\<close> and otherwise
  \<open>ceil(d / L)\<close> equally spaced points that end at the endpoint, where \<open>L\<close> is
  \<open>max_stitch_length_mm\<close>, or 2.5 mm when that value is not positive; so any two
  consecutive emitted stitches are at most \<open>L + 10\<^sup>-\<^sup>6\<close> apart. The cleaning, the
  length \<open>L\<close> and the emitted sequence on the right-hand side are the ones worded from the
  specification, not the loops of the source. Coordinates are exact reals here.
\<close>

theorem running_stitch_generator:
  assumes "2 \<le> length (cleanedPolyline pathMm)"
  shows "map pointOf (generateRunningStitches pathMm config colorIdx hex)
           = runningSpec (specRunLength config) (cleanedPolyline pathMm)
       \<and> consecutiveWithin (specRunLength config + 1 / 10 ^ 6)
           (map pointOf (generateRunningStitches pathMm config colorIdx hex))"
proof -
  have ne: "pathMm \<noteq> []" using assms by (auto simp: cleanedPolyline_def)
  have c: "cleanPath pathMm = cleanedPolyline pathMm" by (rule cleanPath_spec [OF ne])
  have two: "2 \<le> length (cleanPath pathMm)" using assms by (simp only: c)
  have e: "map pointOf (generateRunningStitches pathMm config colorIdx hex)
        = runningSpec (specRunLength config) (cleanedPolyline pathMm)"
    using running_generator_points [OF two, of config colorIdx hex] by (simp only: c runLength_spec)
  have "0 < specRunLength config" using runLength_pos [of config] by (simp only: runLength_spec)
  moreover have "cleanedPolyline pathMm \<noteq> []" using assms by auto
  ultimately have "consecutiveWithin (specRunLength config + 1 / 10 ^ 6)
      (runningSpec (specRunLength config) (cleanedPolyline pathMm))"
    by (rule runningSpec_within)
  with e show ?thesis by simp
qed


lemma dist_pt_horizontal: "py p = py q \<Longrightarrow> dist_pt p q = \<bar>px p - px q\<bar>"
  by (simp add: dist_pt_def)

lemma cleanPath_S1: "cleanPath pathS1 = pathS1"
  by (simp add: cleanPath_def pathS1_def cleanStep_def dist_pt_horizontal)

lemma runningSpec_S1:
  "runningSpec (5 / 2) pathS1
     = [mkPoint 0 0, mkPoint (5 / 2) 0, mkPoint 5 0, mkPoint (15 / 2) 0, mkPoint 10 0]"
  by (simp add: runningSpec_def pathS1_def specSegment_def
      dist_pt_horizontal equalSplit_def upt_conv_Cons mkPoint_def)

lemma cleanedPolyline_S1: "cleanedPolyline pathS1 = pathS1"
  by (simp add: cleanedPolyline_def pathS1_def dist_pt_horizontal)

lemma cleanedPolyline_near:
  "cleanedPolyline nearPath = [mkPoint 0 0, mkPoint (3 / 250) 0, mkPoint (1503 / 250) 0]"
  by (simp add: cleanedPolyline_def nearPath_def dist_pt_horizontal)

lemma runningSpec_near:
  "runningSpec 4 [mkPoint 0 0, mkPoint (3 / 250) 0, mkPoint (1503 / 250) 0]
     = [mkPoint 0 0, mkPoint (3 / 250) 0, mkPoint (753 / 250) 0, mkPoint (1503 / 250) 0]"
  by (simp add: runningSpec_def specSegment_def
      dist_pt_horizontal equalSplit_def upt_conv_Cons mkPoint_def)

lemma specRunLength_long: "specRunLength longRunConfig = 4"
  by (simp add: specRunLength_def longRunConfig_def)

lemma specRunLength_zero: "specRunLength zeroConfig = 5 / 2"
  by (simp add: specRunLength_def zeroConfig_def)

text \<open>
  Two instances. In \<open>nearPath\<close> with \<open>L = 4\<close> the point at exactly 0.01 mm is removed,
  the next point is kept because it is 0.012 mm from the last point kept (though only
  0.002 mm from its neighbour), and the segment of 6 mm is split in two. With a maximum
  stitch length of zero the generator works with 2.5 mm.
\<close>

theorem running_stitch_generator_witness:
  "2 \<le> length (cleanedPolyline nearPath)
   \<and> cleanedPolyline nearPath = [mkPoint 0 0, mkPoint (3 / 250) 0, mkPoint (1503 / 250) 0]
   \<and> specRunLength longRunConfig = 4
   \<and> map pointOf (generateRunningStitches nearPath longRunConfig 0 ''#000000'')
       = [mkPoint 0 0, mkPoint (3 / 250) 0, mkPoint (753 / 250) 0, mkPoint (1503 / 250) 0]
   \<and> consecutiveWithin (4 + 1 / 10 ^ 6)
         (map pointOf (generateRunningStitches nearPath longRunConfig 0 ''#000000''))
   \<and> 2 \<le> length (cleanedPolyline pathS1)
   \<and> maxStitchLengthMm zeroConfig = 0
   \<and> specRunLength zeroConfig = 5 / 2
   \<and> map pointOf (generateRunningStitches pathS1 zeroConfig 0 ''#000000'')
       = [mkPoint 0 0, mkPoint (5 / 2) 0, mkPoint 5 0, mkPoint (15 / 2) 0, mkPoint 10 0]"
proof -
  have h1: "2 \<le> length (cleanedPolyline nearPath)" by (simp add: cleanedPolyline_near)
  have h2: "2 \<le> length (cleanedPolyline pathS1)" by (simp add: cleanedPolyline_S1) (simp add: pathS1_def)
  have z: "maxStitchLengthMm zeroConfig = 0" by (simp add: zeroConfig_def)
  have a: "map pointOf (generateRunningStitches nearPath longRunConfig 0 ''#000000'')
             = [mkPoint 0 0, mkPoint (3 / 250) 0, mkPoint (753 / 250) 0, mkPoint (1503 / 250) 0]
         \<and> consecutiveWithin (4 + 1 / 10 ^ 6)
             (map pointOf (generateRunningStitches nearPath longRunConfig 0 ''#000000''))"
    using running_stitch_generator [OF h1, of longRunConfig 0 "''#000000''"]
    unfolding cleanedPolyline_near specRunLength_long runningSpec_near .
  have b: "map pointOf (generateRunningStitches pathS1 zeroConfig 0 ''#000000'')
       = [mkPoint 0 0, mkPoint (5 / 2) 0, mkPoint 5 0, mkPoint (15 / 2) 0, mkPoint 10 0]"
    using running_stitch_generator [OF h2, of zeroConfig 0 "''#000000''"]
    unfolding cleanedPolyline_S1 specRunLength_zero runningSpec_S1 by (rule conjunct1)
  from h1 h2 z a b cleanedPolyline_near specRunLength_long specRunLength_zero
  show ?thesis by blast
qed

lemma cleanPath_boundary: "cleanPath boundaryPath = pathS1"
  by (simp add: cleanPath_def boundaryPath_def pathS1_def cleanStep_def dist_pt_horizontal)

lemma runLength_base: "runLength baseConfig = 5 / 2"
  by (simp add: runLength_def baseConfig_def)

lemma specRunLength_base: "specRunLength baseConfig = 5 / 2"
  by (simp add: specRunLength_def baseConfig_def)

lemma runningSpec_boundary:
  "runningSpec (5 / 2) boundaryPath
     = [mkPoint 0 0, mkPoint (1 / 100) 0, mkPoint (1003 / 400) 0, mkPoint (1001 / 200) 0,
        mkPoint (3001 / 400) 0, mkPoint 10 0]"
  by (simp add: runningSpec_def boundaryPath_def specSegment_def
      dist_pt_horizontal equalSplit_def upt_conv_Cons mkPoint_def)

text \<open>
  Claim C6 as stated removes the points that are closer than 0.01 mm. In
  \<open>boundaryPath\<close> no point is closer than 0.01 mm to another: the second point is
  exactly 0.01 mm from the first and 9.99 mm from the third. By the claim nothing is
  removed and the generator emits six points, the second of them the point at 0.01 mm;
  the generator removes that point and emits the five points of the segment from 0 to 10.
\<close>

theorem running_stitch_generator_counterexample:
  "dist_pt (boundaryPath ! 0) (boundaryPath ! 1) = 1 / 100
   \<and> dist_pt (boundaryPath ! 1) (boundaryPath ! 2) = 999 / 100
   \<and> specRunLength baseConfig = 5 / 2
   \<and> runningSpec (specRunLength baseConfig) boundaryPath
       = [mkPoint 0 0, mkPoint (1 / 100) 0, mkPoint (1003 / 400) 0, mkPoint (1001 / 200) 0,
          mkPoint (3001 / 400) 0, mkPoint 10 0]
   \<and> map pointOf (generateRunningStitches boundaryPath baseConfig 0 ''#000000'')
       = [mkPoint 0 0, mkPoint (5 / 2) 0, mkPoint 5 0, mkPoint (15 / 2) 0, mkPoint 10 0]"
proof -
  have two: "2 \<le> length (cleanPath boundaryPath)" by (simp add: cleanPath_boundary) (simp add: pathS1_def)
  have g: "map pointOf (generateRunningStitches boundaryPath baseConfig 0 ''#000000'')
       = [mkPoint 0 0, mkPoint (5 / 2) 0, mkPoint 5 0, mkPoint (15 / 2) 0, mkPoint 10 0]"
    using running_generator_points [OF two, of baseConfig 0 "''#000000''"]
    unfolding cleanPath_boundary runLength_base runningSpec_S1 .
  have d: "dist_pt (boundaryPath ! 0) (boundaryPath ! 1) = 1 / 100"
    "dist_pt (boundaryPath ! 1) (boundaryPath ! 2) = 999 / 100"
    by (simp_all add: boundaryPath_def dist_pt_horizontal)
  have s: "runningSpec (specRunLength baseConfig) boundaryPath
       = [mkPoint 0 0, mkPoint (1 / 100) 0, mkPoint (1003 / 400) 0, mkPoint (1001 / 200) 0,
          mkPoint (3001 / 400) 0, mkPoint 10 0]"
    by (simp only: specRunLength_base runningSpec_boundary)
  from g d s specRunLength_base show ?thesis by blast
qed


section \<open>Properties of the satin generator\<close>

lemma normalize_sq:
  "(px (normalize_pt p))\<^sup>2 + (py (normalize_pt p))\<^sup>2
     = (if px p * px p + py p * py p = 0 then 0 else 1)"
proof (cases "px p * px p + py p * py p = 0")
  case True
  then show ?thesis by (simp add: normalize_pt_def)
next
  case False
  define L where "L = sqrt (px p * px p + py p * py p)"
  have s: "0 \<le> px p * px p + py p * py p" by simp
  have l: "L * L = px p * px p + py p * py p" unfolding L_def using s by simp
  have n: "L \<noteq> 0" using False l by auto
  have "(px p / L)\<^sup>2 + (py p / L)\<^sup>2 = (px p * px p + py p * py p) / (L * L)"
    by (simp add: power2_eq_square add_divide_distrib)
  also have "\<dots> = 1" by (simp only: l [symmetric]) (simp add: n)
  finally have "(px p / L)\<^sup>2 + (py p / L)\<^sup>2 = 1" .
  then show ?thesis using False n unfolding L_def
    by (simp add: normalize_pt_def Let_def)
qed

lemma normalize_le_one: "(px (normalize_pt p))\<^sup>2 + (py (normalize_pt p))\<^sup>2 \<le> 1"
  by (simp add: normalize_sq)

lemma cauchy2: "(a * c + b * d)\<^sup>2 \<le> (a\<^sup>2 + b\<^sup>2) * (c\<^sup>2 + d\<^sup>2)" for a b c d :: real
proof -
  have "(a\<^sup>2 + b\<^sup>2) * (c\<^sup>2 + d\<^sup>2) - (a * c + b * d)\<^sup>2 = (a * d - b * c)\<^sup>2"
    by (simp add: power2_eq_square algebra_simps)
  moreover have "0 \<le> (a * d - b * c)\<^sup>2" by simp
  ultimately show ?thesis by linarith
qed

lemma unit_dot_ge:
  fixes a b c d :: real
  assumes "a\<^sup>2 + b\<^sup>2 = 1" "c\<^sup>2 + d\<^sup>2 \<le> 1"
  shows "- 1 \<le> a * c + b * d"
proof -
  have "(a * c + b * d)\<^sup>2 \<le> 1 * (c\<^sup>2 + d\<^sup>2)" using cauchy2 [of a c b d] assms(1) by simp
  also have "\<dots> \<le> 1" using assms(2) by simp
  finally have "(a * c + b * d)\<^sup>2 \<le> 1\<^sup>2" by simp
  then have "\<bar>a * c + b * d\<bar> \<le> 1" using abs_le_square_iff [of "a * c + b * d" 1] by simp
  then show ?thesis by linarith
qed

text \<open>The bisector of two normalised tangents never points against the first.\<close>

lemma bisector_dot_nonneg:
  fixes a b c d :: real
  assumes v1: "a\<^sup>2 + b\<^sup>2 = 0 \<or> a\<^sup>2 + b\<^sup>2 = 1" and v2: "c\<^sup>2 + d\<^sup>2 \<le> 1"
  shows "0 \<le> px (normalize_pt (mkPoint (a + c) (b + d))) * a
           + py (normalize_pt (mkPoint (a + c) (b + d))) * b"
proof -
  let ?s = "(a + c) * (a + c) + (b + d) * (b + d)"
  have num: "0 \<le> (a + c) * a + (b + d) * b"
  proof (cases "a\<^sup>2 + b\<^sup>2 = 0")
    case True
    then have "a = 0" "b = 0" by (simp_all add: sum_power2_eq_zero_iff)
    then show ?thesis by simp
  next
    case False
    then have u: "a\<^sup>2 + b\<^sup>2 = 1" using v1 by blast
    have "(a + c) * a + (b + d) * b = (a\<^sup>2 + b\<^sup>2) + (a * c + b * d)"
      by (simp add: power2_eq_square algebra_simps)
    then show ?thesis using unit_dot_ge [OF u v2] u by linarith
  qed
  define L where "L = sqrt ?s"
  have L0: "0 \<le> L" unfolding L_def by simp
  have n: "normalize_pt (mkPoint (a + c) (b + d))
           = (if L = 0 then mkPoint 0 0 else mkPoint ((a + c) / L) ((b + d) / L))"
    unfolding L_def by (simp add: normalize_pt_def mkPoint_def Let_def)
  show ?thesis
  proof (cases "L = 0")
    case True
    then show ?thesis by (simp add: n)
  next
    case False
    then have "0 < L" using L0 by simp
    have g: "x / L * a + y / L * b = (x * a + y * b) / L" for x y
      by (simp add: add_divide_distrib)
    have "(a + c) / L * a + (b + d) / L * b = ((a + c) * a + (b + d) * b) / L"
      by (rule g)
    then have "px (normalize_pt (mkPoint (a + c) (b + d))) * a
           + py (normalize_pt (mkPoint (a + c) (b + d))) * b = ((a + c) * a + (b + d) * b) / L"
      using False by (simp only: n if_False px_mkPoint py_mkPoint)
    moreover have "0 \<le> ((a + c) * a + (b + d) * b) / L" using num \<open>0 < L\<close> by simp
    ultimately show ?thesis by (simp only:)
  qed
qed

lemma dist_rails:
  "dist_pt (addPoints c (scalePoint mv ml)) (subPoints c (scalePoint mv ml))
     = 2 * \<bar>ml\<bar> * sqrt ((px mv)\<^sup>2 + (py mv)\<^sup>2)"
proof -
  have "(px c + px mv * ml - (px c - px mv * ml))\<^sup>2 + (py c + py mv * ml - (py c - py mv * ml))\<^sup>2
        = (2 * ml)\<^sup>2 * ((px mv)\<^sup>2 + (py mv)\<^sup>2)"
    by (simp add: power2_eq_square algebra_simps)
  then show ?thesis
    by (simp add: dist_pt_def addPoints_def subPoints_def scalePoint_def real_sqrt_mult)
qed

lemma dist_rails_bound:
  assumes "0 \<le> ml" "ml \<le> 3 * h" "(px mv)\<^sup>2 + (py mv)\<^sup>2 \<le> 1"
  shows "dist_pt (addPoints c (scalePoint mv ml)) (subPoints c (scalePoint mv ml)) \<le> 6 * h"
proof -
  have "sqrt ((px mv)\<^sup>2 + (py mv)\<^sup>2) \<le> 1" using assms(3) by simp
  then have "2 * \<bar>ml\<bar> * sqrt ((px mv)\<^sup>2 + (py mv)\<^sup>2) \<le> 2 * \<bar>ml\<bar> * 1"
    by (intro mult_left_mono) simp_all
  also have "\<dots> \<le> 6 * h" using assms(1,2) by simp
  finally show ?thesis by (simp only: dist_rails)
qed

lemma satinRail_bound:
  assumes h: "0 < h"
  shows "dist_pt (fst (satinRail h rs i)) (snd (satinRail h rs i)) \<le> 6 * h"
proof -
  define cur where "cur = rs ! i"
  define prev where "prev = (if i > 0 then rs ! (i - 1) else subPoints cur (subPoints (rs ! (i + 1)) cur))"
  define nxt where "nxt = (if i < length rs - 1 then rs ! (i + 1) else addPoints cur (subPoints cur (rs ! (i - 1))))"
  define v1 where "v1 = normalize_pt (subPoints cur prev)"
  define v2 where "v2 = normalize_pt (subPoints nxt cur)"
  define n1 where "n1 = mkPoint (- py v1) (px v1)"
  define tangentSum where "tangentSum = addPoints v1 v2"
  define tangentLen where "tangentLen = sqrt (px tangentSum * px tangentSum + py tangentSum * py tangentSum)"
  define bisector where "bisector = normalize_pt tangentSum"
  define mv where "mv = (if tangentLen < 0.001 then n1 else mkPoint (- py bisector) (px bisector))"
  define dot where "dot = dotProduct mv n1"
  define ml0 where "ml0 = (if tangentLen < 0.001 then h else if \<bar>dot\<bar> > 0.1 then h / dot else h)"
  define ml where "ml = (if ml0 > h * 3.0 then h * 3.0 else ml0)"
  have r: "satinRail h rs i = (addPoints cur (scalePoint mv ml), subPoints cur (scalePoint mv ml))"
    unfolding satinRail_def Let_def cur_def prev_def nxt_def v1_def v2_def n1_def tangentSum_def
      tangentLen_def bisector_def mv_def dot_def ml0_def ml_def ..
  have u1: "(px v1)\<^sup>2 + (py v1)\<^sup>2 = 0 \<or> (px v1)\<^sup>2 + (py v1)\<^sup>2 = 1"
    unfolding v1_def by (simp only: normalize_sq split: if_splits) simp
  have u2: "(px v2)\<^sup>2 + (py v2)\<^sup>2 \<le> 1" unfolding v2_def by (rule normalize_le_one)
  have mvn: "(px mv)\<^sup>2 + (py mv)\<^sup>2 \<le> 1"
  proof (cases "tangentLen < 0.001")
    case True
    then show ?thesis using u1 by (auto simp: mv_def n1_def)
  next
    case False
    have "(px bisector)\<^sup>2 + (py bisector)\<^sup>2 \<le> 1" unfolding bisector_def by (rule normalize_le_one)
    then show ?thesis using False by (simp add: mv_def add.commute)
  qed
  have dotnn: "0 \<le> dot" if "\<not> tangentLen < 0.001"
  proof -
    have ts: "tangentSum = mkPoint (px v1 + px v2) (py v1 + py v2)"
      by (simp add: tangentSum_def addPoints_def)
    have "dot = px bisector * px v1 + py bisector * py v1"
      using that by (simp add: dot_def mv_def n1_def dotProduct_def)
    then show ?thesis
      using bisector_dot_nonneg [OF u1 u2] by (simp add: bisector_def ts)
  qed
  have ml0: "0 < ml0"
  proof (cases "tangentLen < 0.001")
    case True
    then show ?thesis using h by (simp add: ml0_def)
  next
    case False
    show ?thesis
    proof (cases "\<bar>dot\<bar> > 0.1")
      case True
      then have "0 < dot" using dotnn [OF False] by simp
      then show ?thesis using h False True by (simp add: ml0_def)
    next
      case d: False
      then show ?thesis using h False by (simp add: ml0_def)
    qed
  qed
  have "0 \<le> ml" "ml \<le> 3 * h" using ml0 h by (simp_all add: ml_def)
  from dist_rails_bound [OF this mvn] show ?thesis by (simp add: r)
qed

lemma dist_pt_sym: "dist_pt p q = dist_pt q p"
  by (simp add: dist_pt_def power2_commute)

lemma dist_shorten: "dist_pt (interpolatePoints p (q :: point) 0.3) q \<le> dist_pt p q"
proof -
  have "dist_pt (interpolatePoints p q 0.3) (interpolatePoints p q 1) = \<bar>0.3 - 1\<bar> * dist_pt p q"
    by (rule dist_interpolate)
  then have "dist_pt (interpolatePoints p q 0.3) q = 0.7 * dist_pt p q" by simp
  moreover have "0 \<le> dist_pt p q" by simp
  ultimately show ?thesis by linarith
qed

lemma satinPair_bound:
  assumes "dist_pt (l ! i) (r ! i) \<le> b"
  shows "dist_pt (fst (satinPair l r i)) (snd (satinPair l r i)) \<le> b"
proof -
  have 1: "dist_pt (interpolatePoints (l ! i) (r ! i) 0.3) (r ! i) \<le> b"
    using dist_shorten [of "l ! i" "r ! i"] assms by linarith
  have "dist_pt (l ! i) (interpolatePoints (r ! i) (l ! i) 0.3) \<le> dist_pt (r ! i) (l ! i)"
    using dist_shorten [of "r ! i" "l ! i"] by (simp only: dist_pt_sym [of "l ! i"])
  then have 2: "dist_pt (l ! i) (interpolatePoints (r ! i) (l ! i) 0.3) \<le> b"
    using assms by (simp only: dist_pt_sym [of "r ! i" "l ! i"])
  show ?thesis using assms 1 2 by (auto simp: satinPair_def Let_def)
qed

lemma satinPairsOf_bound:
  assumes "0 < h" "(p1, p2) \<in> set (satinPairsOf h rs)"
  shows "dist_pt p1 p2 \<le> 6 * h"
proof -
  let ?rails = "map (satinRail h rs) [0..<length rs]"
  from assms(2) obtain i where i: "i < length rs"
    and e: "(p1, p2) = satinPair (map fst ?rails) (map snd ?rails) i"
    by (auto simp: satinPairsOf_def Let_def)
  have "dist_pt (map fst ?rails ! i) (map snd ?rails ! i) \<le> 6 * h"
    using i satinRail_bound [OF assms(1), of rs i] by simp
  from satinPair_bound [OF this] e show ?thesis by (metis fst_conv snd_conv)
qed

lemma dist_resamplePoint:
  assumes "0 < dist_pt prev (cur :: point)" "acc < spacing" "spacing \<le> acc + dist_pt prev cur"
  shows "dist_pt (resamplePoint prev cur spacing acc) cur = acc + dist_pt prev cur - spacing"
proof -
  let ?d = "dist_pt prev cur"
  let ?r = "(spacing - acc) / ?d"
  have r1: "?r \<le> 1" using assms by (simp add: pos_divide_le_eq)
  have "dist_pt (interpolatePoints prev cur ?r) (interpolatePoints prev cur 1) = \<bar>?r - 1\<bar> * ?d"
    by (rule dist_interpolate)
  also have "\<dots> = (1 - ?r) * ?d" using r1 by simp
  also have "\<dots> = ?d - (spacing - acc)" using assms(1) by (simp add: field_simps)
  finally show ?thesis by (simp add: resamplePoint_def Let_def)
qed

lemma resampleLoop_total:
  assumes sp: "0 < spacing"
  shows "0 \<le> acc \<Longrightarrow> acc < spacing \<Longrightarrow> \<exists>r. resampleLoop path spacing i prev acc np = Some r"
proof (induction "length path - i" arbitrary: i prev acc np)
  case 0
  then show ?case by (subst resampleLoop.simps) simp
next
  case (Suc n)
  then have i: "i < length path" by simp
  have skip: "\<exists>r. resampleLoop path spacing i prev acc np = Some r"
    if "0 \<le> acc" "acc + dist_pt prev (path ! i) < spacing" for prev :: point and acc np
  proof -
    have "\<exists>r. resampleLoop path spacing (i + 1) (path ! i) (acc + dist_pt prev (path ! i)) np = Some r"
      using Suc.hyps(1) [of "i + 1"] Suc.hyps(2) that by simp
    then show ?thesis using i that by (subst resampleLoop.simps) simp
  qed
  have inner: "\<forall>(prev :: point) acc np. 0 \<le> acc \<longrightarrow> acc < spacing \<longrightarrow>
      nat \<lfloor>(acc + dist_pt prev (path ! i)) / spacing\<rfloor> = k \<longrightarrow>
      (\<exists>r. resampleLoop path spacing i prev acc np = Some r)" for k
  proof (induction k)
    case 0
    show ?case
    proof (intro allI impI)
      fix prev :: point and acc np
      assume a: "0 \<le> acc" "acc < spacing" "nat \<lfloor>(acc + dist_pt prev (path ! i)) / spacing\<rfloor> = 0"
      have "(acc + dist_pt prev (path ! i)) / spacing < 1"
      proof (rule ccontr)
        assume "\<not> (acc + dist_pt prev (path ! i)) / spacing < 1"
        then have "1 \<le> \<lfloor>(acc + dist_pt prev (path ! i)) / spacing\<rfloor>" by (simp add: le_floor_iff)
        with a(3) show False by simp
      qed
      then have "acc + dist_pt prev (path ! i) < spacing" using sp by (simp add: pos_divide_less_eq)
      from skip [OF a(1) this] show "\<exists>r. resampleLoop path spacing i prev acc np = Some r" .
    qed
  next
    case (Suc k)
    show ?case
    proof (intro allI impI)
      fix prev :: point and acc np
      assume a: "0 \<le> acc" "acc < spacing"
        "nat \<lfloor>(acc + dist_pt prev (path ! i)) / spacing\<rfloor> = Suc k"
      let ?d = "dist_pt prev (path ! i)"
      show "\<exists>r. resampleLoop path spacing i prev acc np = Some r"
      proof (cases "acc + ?d < spacing")
        case True
        from skip [OF a(1) True] show ?thesis .
      next
        case False
        then have ge: "spacing \<le> acc + ?d" by simp
        then have dpos: "0 < ?d" using a(2) by linarith
        let ?p = "resamplePoint prev (path ! i) spacing acc"
        have d': "dist_pt ?p (path ! i) = acc + ?d - spacing"
          by (rule dist_resamplePoint [OF dpos a(2) ge])
        have "(0 + dist_pt ?p (path ! i)) / spacing = (acc + ?d) / spacing - 1"
          using sp by (simp add: d' diff_divide_distrib)
        then have "\<lfloor>(0 + dist_pt ?p (path ! i)) / spacing\<rfloor> = \<lfloor>(acc + ?d) / spacing\<rfloor> - 1"
          by simp
        then have "nat \<lfloor>(0 + dist_pt ?p (path ! i)) / spacing\<rfloor> = k" using a(3) by simp
        then have "\<exists>r. resampleLoop path spacing i ?p 0 (np @ [?p]) = Some r"
          using Suc.IH sp by blast
        then show ?thesis using i ge dpos by (subst resampleLoop.simps) simp
      qed
    qed
  qed
  from inner Suc.prems show ?case by blast
qed

lemma resamplePath_total: "0 < spacing \<Longrightarrow> \<exists>r. resamplePath path spacing = Some r"
proof -
  assume sp: "0 < spacing"
  obtain r where "resampleLoop path spacing 1 (path ! 0) 0 [path ! 0] = Some r"
    using resampleLoop_total [OF sp, of 0 path 1 "path ! 0" "[path ! 0]"] sp by auto
  then show ?thesis by (simp add: resamplePath_def)
qed

text \<open>
  With a density that is zero or negative the resampling of a spine of two points or more
  gives no result: every distance reaches the spacing, where the distance is zero the
  source divides by it, and where it is positive the next point does not come nearer to
  the end of the segment, so the loop stays in the segment for ever.
\<close>

lemma reach_nonpositive: "spacing \<le> 0 \<Longrightarrow> 0 \<le> acc \<Longrightarrow> spacing \<le> acc + dist_pt p q"
  using dist_pt_nonneg [of p q] by linarith

lemma resampleLoop_nonpositive:
  "resampleLoop path spacing i prev acc np = Some r \<Longrightarrow>
     \<not> (spacing \<le> 0 \<and> 0 \<le> acc \<and> i < length path)"
  by (rule resampleLoop.raw_induct
        [where P = "\<lambda>path spacing i prev acc np r. \<not> (spacing \<le> 0 \<and> 0 \<le> acc \<and> i < length path)"])
     (auto split: if_splits simp: reach_nonpositive)

lemma resamplePath_nonpositive: "spacing \<le> 0 \<Longrightarrow> 2 \<le> length path \<Longrightarrow> resamplePath path spacing = None"
proof -
  assume a: "spacing \<le> 0" "2 \<le> length path"
  have "resampleLoop path spacing 1 (path ! 0) 0 [path ! 0] = None"
  proof (cases "resampleLoop path spacing 1 (path ! 0) 0 [path ! 0]")
    case None
    then show ?thesis .
  next
    case (Some r)
    from resampleLoop_nonpositive [OF this] a show ?thesis by simp
  qed
  then show ?thesis using a by (simp add: resamplePath_def)
qed

lemma satinPairs_nonpositive:
  "densityMm config \<le> 0 \<Longrightarrow> 2 \<le> length pathMm \<Longrightarrow> satinPairs pathMm config = None"
  by (simp add: satinPairs_def resamplePath_nonpositive)


lemma dist_self [simp]: "dist_pt p p = 0"
  by (simp add: dist_pt_def)

lemma sqrt_sq_sum: "0 \<le> L \<Longrightarrow> a * a + b * b = L * L \<Longrightarrow> sqrt (a * a + b * b) = L"
  by (simp add: real_sqrt_unique power2_eq_square)

lemma dist_sharp: "dist_pt (mkPoint 625 0) (mkPoint 98 336) = 625"
proof -
  have "sqrt (527 * 527 + 336 * 336) = (625 :: real)"
    by (rule sqrt_sq_sum) simp_all
  then show ?thesis by (simp add: dist_pt_def power2_eq_square)
qed

lemma resamplePoint_full:
  "dist_pt prev (cur :: point) = spacing \<Longrightarrow> spacing \<noteq> 0 \<Longrightarrow> resamplePoint prev cur spacing 0 = cur"
  by (simp add: resamplePoint_def)

lemma resample_sharp: "resamplePath sharpSpine 625 = Some sharpResampled"
proof -
  have 1: "resampleLoop sharpSpine 625 (Suc (Suc (Suc (Suc 0)))) (mkPoint 98 336) 0
             [mkPoint (- 625) 0, mkPoint 0 0, mkPoint 625 0, mkPoint 98 336]
           = Some [mkPoint (- 625) 0, mkPoint 0 0, mkPoint 625 0, mkPoint 98 336]"
    by (subst resampleLoop.simps) (simp add: sharpSpine_def)
  have 2: "resampleLoop sharpSpine 625 (Suc (Suc (Suc 0))) (mkPoint 625 0) 0
             [mkPoint (- 625) 0, mkPoint 0 0, mkPoint 625 0]
           = Some [mkPoint (- 625) 0, mkPoint 0 0, mkPoint 625 0, mkPoint 98 336]"
    apply (subst resampleLoop.simps)
    apply (simp add: sharpSpine_def dist_sharp resamplePoint_full)
    apply (subst resampleLoop.simps)
    apply (simp add: sharpSpine_def 1 [unfolded sharpSpine_def])
    done
  have 3: "resampleLoop sharpSpine 625 (Suc (Suc 0)) (mkPoint 0 0) 0 [mkPoint (- 625) 0, mkPoint 0 0]
           = Some [mkPoint (- 625) 0, mkPoint 0 0, mkPoint 625 0, mkPoint 98 336]"
    apply (subst resampleLoop.simps)
    apply (simp add: sharpSpine_def dist_pt_horizontal resamplePoint_full)
    apply (subst resampleLoop.simps)
    apply (simp add: sharpSpine_def 2 [unfolded sharpSpine_def])
    done
  have 4: "resampleLoop sharpSpine 625 (Suc 0) (mkPoint (- 625) 0) 0 [mkPoint (- 625) 0]
           = Some [mkPoint (- 625) 0, mkPoint 0 0, mkPoint 625 0, mkPoint 98 336]"
    apply (subst resampleLoop.simps)
    apply (simp add: sharpSpine_def dist_pt_horizontal resamplePoint_full)
    apply (subst resampleLoop.simps)
    apply (simp add: sharpSpine_def 3 [unfolded sharpSpine_def])
    done
  show ?thesis
    by (simp add: resamplePath_def 4 [unfolded sharpSpine_def] sharpSpine_def sharpResampled_def)
qed

lemma normalize_of_len:
  "sqrt (a * a + b * b) = L \<Longrightarrow> L \<noteq> 0 \<Longrightarrow> normalize_pt (mkPoint a b) = mkPoint (a / L) (b / L)"
  by (simp add: normalize_pt_def Let_def)

lemma rail_sharp:
  "satinRail (5 / 2) sharpResampled 2 = (mkPoint (3089 / 5) (21 / 10), mkPoint (3161 / 5) (- (21 / 10)))"
proof -
  have l1: "sqrt (625 * 625 + 0 * 0) = (625 :: real)"
    by (rule sqrt_sq_sum) simp_all
  have v1: "normalize_pt (mkPoint 625 0) = mkPoint 1 0"
    using normalize_of_len [OF l1] by simp
  have l2: "sqrt (- 527 * - 527 + 336 * 336) = (625 :: real)"
    by (rule sqrt_sq_sum) simp_all
  have v2: "normalize_pt (mkPoint (- 527) 336) = mkPoint (- (527 / 625)) (336 / 625)"
    using normalize_of_len [OF l2] by simp
  have tl: "sqrt (98 / 625 * (98 / 625) + 336 / 625 * (336 / 625)) = 14 / 25"
    by (rule sqrt_sq_sum) simp_all
  have bs: "normalize_pt (mkPoint (98 / 625) (336 / 625)) = mkPoint (7 / 25) (24 / 25)"
    using normalize_of_len [OF tl] by simp
  have t2: "sqrt (196 / 625) = 14 / 25"
    by (rule real_sqrt_unique) (simp_all add: power2_eq_square)
  show ?thesis
    by (simp add: satinRail_def sharpResampled_def Let_def subPoints_def addPoints_def scalePoint_def
        dotProduct_def v1 v2 t2 bs)
qed

lemma length_satinPairsOf [simp]: "length (satinPairsOf h rs) = length rs"
  by (simp add: satinPairsOf_def Let_def)

lemma satinPairsOf_even:
  "i < length rs \<Longrightarrow> i mod 2 = 0 \<Longrightarrow> satinPairsOf h rs ! i = satinRail h rs i"
  by (simp add: satinPairsOf_def Let_def satinPair_def)

lemma pair_sharp:
  "satinPairsOf (5 / 2) sharpResampled ! 2 = (mkPoint (3089 / 5) (21 / 10), mkPoint (3161 / 5) (- (21 / 10)))"
proof -
  have "satinPairsOf (5 / 2) sharpResampled ! 2 = satinRail (5 / 2) sharpResampled 2"
    by (rule satinPairsOf_even) (simp_all add: sharpResampled_def)
  then show ?thesis by (simp only: rail_sharp)
qed

lemma halfWidth_sharp: "satinHalfWidth sharpConfig = 5 / 2"
  by (simp add: satinHalfWidth_def sharpConfig_def baseConfig_def)

lemma satinPairs_sharp:
  "satinPairs sharpSpine sharpConfig = Some (satinPairsOf (5 / 2) sharpResampled)"
proof -
  have "densityMm sharpConfig = 625" by (simp add: sharpConfig_def)
  moreover have "\<not> length sharpSpine < 2" by (simp add: sharpSpine_def)
  ultimately show ?thesis
    by (simp add: satinPairs_def resample_sharp halfWidth_sharp)
qed

lemma dist_pair_sharp:
  "dist_pt (mkPoint (3089 / 5) (21 / 10)) (mkPoint (3161 / 5) (- (21 / 10))) = 15"
proof -
  have "sqrt ((72 / 5) * (72 / 5) + (21 / 5) * (21 / 5)) = 15"
    by (rule sqrt_sq_sum) simp_all
  then show ?thesis by (simp add: dist_pt_def power2_eq_square)
qed

lemma satinPairs_pointSpine: "satinPairs pointSpine zeroDensityConfig = None"
  by (rule satinPairs_nonpositive) (simp_all add: zeroDensityConfig_def pointSpine_def)



section \<open>Properties of the layer composer\<close>

lemma plainKinds_simps [simp]:
  "plainKinds []"
  "plainKinds (s # ss) = ((stype s = KStitch \<or> stype s = KJump) \<and> plainKinds ss)"
  "plainKinds (xs @ ys) = (plainKinds xs \<and> plainKinds ys)"
  by (auto simp: plainKinds_def)

lemma stype_genStitch [simp]: "stype (genStitch p k c h s) = k"
  by (simp add: genStitch_def)

lemma plainKinds_map_gen: "k = KStitch \<or> k = KJump \<Longrightarrow> plainKinds (map (\<lambda>x. genStitch (f x) k c h s) xs)"
  by (auto simp: plainKinds_def)

lemma plainKinds_concat: "(\<And>x. x \<in> set xs \<Longrightarrow> plainKinds (f x)) \<Longrightarrow> plainKinds (concat (map f xs))"
  by (induction xs) auto

lemma plainKinds_runSegment: "plainKinds (runSegment L c h p q)"
  by (simp add: runSegment_def Let_def plainKinds_map_gen)

lemma plainKinds_running: "plainKinds (generateRunningStitches p cfg c h)"
  by (simp add: generateRunningStitches_def Let_def plainKinds_concat plainKinds_runSegment del: upt_Suc)

lemma plainKinds_satinCrossing: "plainKinds (satinCrossing cfg c h i p1 p2)"
  by (simp add: satinCrossing_def Let_def plainKinds_map_gen)

lemma plainKinds_satin: "generateSatinStitches p cfg c h = Some ss \<Longrightarrow> plainKinds ss"
  by (auto simp: generateSatinStitches_def plainKinds_concat plainKinds_satinCrossing split: option.splits)

lemma plainKinds_tatamiSegment:
  "plainKinds ss \<Longrightarrow> plainKinds (tatamiSegment cfg c h a y ss seg)"
  by (simp add: tatamiSegment_def Let_def plainKinds_map_gen)

lemma plainKinds_foldl_segment:
  "plainKinds ss \<Longrightarrow> plainKinds (foldl (tatamiSegment cfg c h a y) ss segs)"
  by (induction segs arbitrary: ss) (simp_all add: plainKinds_tatamiSegment)

lemma plainKinds_tatamiRows':
  "tatamiRows cfg c h a edges hi y ss = Some r \<Longrightarrow> plainKinds ss \<longrightarrow> plainKinds r"
  by (rule tatamiRows.raw_induct
        [where P = "\<lambda>cfg c h a edges hi y ss r. plainKinds ss \<longrightarrow> plainKinds r"])
     (auto simp: tatamiRow_def plainKinds_foldl_segment split: if_splits)

lemma plainKinds_tatamiRows:
  "tatamiRows cfg c h a edges hi y ss = Some r \<Longrightarrow> plainKinds ss \<Longrightarrow> plainKinds r"
  using plainKinds_tatamiRows' by blast

lemma plainKinds_tatami: "generateTatamiStitches ps cfg c h = Some (Inr ss) \<Longrightarrow> plainKinds ss"
  by (auto simp: generateTatamiStitches_def Let_def split: if_splits option.splits dest: plainKinds_tatamiRows)

lemma stype_markStructure [simp]: "stype (markStructure s) = stype s"
  by (simp add: markStructure_def)

lemma plainKinds_map_mark [simp]: "plainKinds (map markStructure ss) = plainKinds ss"
  by (simp add: plainKinds_def)

lemma plainKinds_map_mark2 [simp]:
  "plainKinds (map (markStructure \<circ> markStructure) ss) = plainKinds ss"
  by (simp add: plainKinds_def)

lemma plainKinds_underlay: "generateUnderlay p cfg c h = Some ss \<Longrightarrow> plainKinds ss"
  by (auto simp: generateUnderlay_def Let_def plainKinds_running split: if_splits dest: plainKinds_satin)

lemma plainKinds_main: "mainStitches p cfg c h = Some (Inr ss) \<Longrightarrow> plainKinds ss"
  by (auto simp: mainStitches_def plainKinds_running split: if_splits dest: plainKinds_satin plainKinds_tatami)

lemma noEnd_simps [simp]:
  "noEnd []"
  "noEnd (s # ss) = (stype s \<noteq> KEnd \<and> noEnd ss)"
  "noEnd (xs @ ys) = (noEnd xs \<and> noEnd ys)"
  by (auto simp: noEnd_def)

lemma plainKinds_noEnd: "plainKinds ss \<Longrightarrow> noEnd ss"
  by (auto simp: plainKinds_def noEnd_def)

lemma stype_tieStitch [simp]: "stype (tieStitch s d k) = k"
  by (simp add: tieStitch_def)

lemma stype_structural [simp]: "stype (structural s k i c) = k"
  by (simp add: structural_def)

lemma plainKinds_addTieIn: "plainKinds ss \<Longrightarrow> plainKinds (addTieIn ss)"
  by (simp add: addTieIn_def)

lemma noEnd_addTieOff: "noEnd ss \<Longrightarrow> noEnd (addTieOff ss)"
  by (simp add: addTieOff_def)

lemma noEnd_withUnderlay: "noEnd ls \<Longrightarrow> plainKinds u \<Longrightarrow> noEnd (withUnderlay i c ls u)"
  by (simp add: withUnderlay_def Let_def plainKinds_noEnd plainKinds_addTieIn)

lemma noEnd_withMain: "noEnd ls \<Longrightarrow> plainKinds m \<Longrightarrow> noEnd (withMain cfg i c u ls m)"
  by (simp add: withMain_def Let_def plainKinds_noEnd plainKinds_addTieIn noEnd_addTieOff)

lemma noEnd_pathStep: "noEnd ls \<Longrightarrow> pathStep cfg i c ls p = Some (Inr ls') \<Longrightarrow> noEnd ls'"
  by (auto simp: pathStep_def split: option.splits sum.splits
      intro!: noEnd_withMain noEnd_withUnderlay dest: plainKinds_underlay plainKinds_main)

lemma foldResult_invariant:
  assumes "\<And>s a s'. P s \<Longrightarrow> f s a = Some (Inr s') \<Longrightarrow> P s'"
  shows "P s \<Longrightarrow> foldResult f s as = Some (Inr r) \<Longrightarrow> P r"
proof (induction as arbitrary: s)
  case Nil
  then show ?case by simp
next
  case (Cons a as)
  then show ?case
    by (auto split: option.splits sum.splits dest: assms)
qed

lemma noEnd_joinLayer: "noEnd all \<Longrightarrow> noEnd ls \<Longrightarrow> noEnd (joinLayer i c all ls)"
  by (simp add: joinLayer_def)

lemma noEnd_layerStep: "noEnd all \<Longrightarrow> layerStep cfg all il = Some (Inr all') \<Longrightarrow> noEnd all'"
proof -
  assume a: "noEnd all" and s: "layerStep cfg all il = Some (Inr all')"
  from s obtain ls where
    f: "foldResult (pathStep cfg (fst il) (layerColor (snd il))) [] (layerPaths (snd il)) = Some (Inr ls)"
    and e: "all' = joinLayer (fst il) (layerColor (snd il)) all ls"
    by (auto simp: layerStep_def split: option.splits sum.splits)
  have "noEnd ls"
    by (rule foldResult_invariant [where P = noEnd, OF _ _ f]) (auto dest: noEnd_pathStep)
  with a e show ?thesis by (simp add: noEnd_joinLayer)
qed

lemma noEnd_layers:
  "foldResult (layerStep cfg) [] ils = Some (Inr all) \<Longrightarrow> noEnd all"
  by (rule foldResult_invariant [where P = noEnd and s = "[]"]) (auto dest: noEnd_layerStep)

lemma set_smallLoop: "set (smallLoop m p xs) \<subseteq> set xs"
  by (induction xs arbitrary: p) auto

lemma entryKind_simps [simp]:
  "entryKind Undefined = None" "entryKind (Record s) = Some (stype s)" "entryKind (TypeOnly k) = Some k"
  by (simp_all add: entryKind_def)

lemma entryKind_endOf [simp]: "entryKind (endOf e) = Some KEnd"
  by (cases e) (simp_all add: endOf_def)

lemma removeSmall_nonempty [simp]: "removeSmallStitches ss m \<noteq> []"
  by (cases ss) (simp_all add: removeSmallStitches_def)

lemma removeSmall_noEnd:
  "noEnd ss \<Longrightarrow> filter (\<lambda>e. entryKind e = Some KEnd) (removeSmallStitches ss m) = []"
proof (cases ss)
  case Nil
  then show ?thesis by (simp add: removeSmallStitches_def)
next
  case (Cons s rest)
  assume "noEnd ss"
  then have "\<forall>x \<in> set (s # smallLoop m s rest). stype x \<noteq> KEnd"
    using Cons set_smallLoop [of m s rest] by (auto simp: noEnd_def)
  then show ?thesis using Cons
    by (simp add: removeSmallStitches_def filter_empty_conv del: set_simps) auto
qed

text \<open>
  Claim C2. Whatever the layers and the configuration, a sequence that
  \<open>digitizeDesign\<close> returns contains exactly one record of kind end, and it is the last
  element. This holds for an empty design as well, where the sequence is \<open>undefined\<close>
  followed by the end record.
\<close>

theorem digitizeDesign_one_end:
  assumes "digitizeDesign layers config = Some (Inr r)"
  shows "r \<noteq> [] \<and> entryKind (last r) = Some KEnd
       \<and> length (filter (\<lambda>e. entryKind e = Some KEnd) r) = 1"
proof -
  from assms obtain all where
    f: "foldResult (layerStep config) [] (zip [0..<length layers] layers) = Some (Inr all)"
    and r: "r = finishDesign config all"
    by (auto simp: digitizeDesign_def split: option.splits sum.splits)
  let ?c = "removeSmallStitches all (minStitchLengthMm config)"
  have r': "r = ?c @ [endOf (last ?c)]" using r by (simp add: finishDesign_def Let_def)
  have "filter (\<lambda>e. entryKind e = Some KEnd) ?c = []"
    by (rule removeSmall_noEnd [OF noEnd_layers [OF f]])
  then show ?thesis using r' by simp
qed

lemma trimsFollowed_run: "trimsFollowed n ks \<longleftrightarrow> trimRun n ks = Some 0"
  by (induction ks arbitrary: n) auto

lemma trimRun_append:
  "trimRun n (xs @ ys) = (case trimRun n xs of None \<Rightarrow> None | Some m \<Rightarrow> trimRun m ys)"
  by (induction xs arbitrary: n) auto

lemma kindsOf_simps [simp]:
  "kindsOf [] = []" "kindsOf (s # ss) = Some (stype s) # kindsOf ss"
  "kindsOf (xs @ ys) = kindsOf xs @ kindsOf ys"
  by (simp_all add: kindsOf_def)

lemma trimRun_plain: "plainKinds ss \<Longrightarrow> trimRun 0 (kindsOf ss) = Some 0"
  by (induction ss) auto

lemma openTrims_Nil [simp]: "openTrims []"
  by (simp add: openTrims_def)

lemma openTrims_plain: "plainKinds ss \<Longrightarrow> openTrims ss"
  by (simp add: openTrims_def trimRun_plain)

lemma trimRun_jump_plain:
  "openTrims ls \<Longrightarrow> stype j = KJump \<Longrightarrow> plainKinds ss \<Longrightarrow>
   trimRun 0 (kindsOf (ls @ j # ss)) = Some 0"
  by (auto simp: openTrims_def trimRun_append trimRun_plain)

lemma trimRun_trim_jump_plain:
  "openTrims ls \<Longrightarrow> stype t = KTrim \<Longrightarrow> stype j = KJump \<Longrightarrow> plainKinds ss \<Longrightarrow>
   trimRun 0 (kindsOf (ls @ t # j # ss)) = Some 0"
  by (auto simp: openTrims_def trimRun_append trimRun_plain)

lemma openTrims_addTieOff_after:
  assumes "trimRun 0 (kindsOf pre) = Some 0" "plainKinds ss"
  shows "openTrims (pre @ addTieOff ss)"
  using assms by (auto simp: openTrims_def addTieOff_def trimRun_append trimRun_plain)

lemma openTrims_withUnderlay:
  "openTrims ls \<Longrightarrow> plainKinds u \<Longrightarrow> openTrims (withUnderlay i c ls u)"
proof -
  assume a: "openTrims ls" "plainKinds u"
  show ?thesis
  proof (cases "u = []")
    case True
    then show ?thesis using a by (simp add: withUnderlay_def)
  next
    case False
    have p: "plainKinds (addTieIn u)" using a by (simp add: plainKinds_addTieIn)
    show ?thesis
    proof (cases "ls = []")
      case True
      then show ?thesis using False p by (simp add: withUnderlay_def Let_def openTrims_plain)
    next
      case ne: False
      have "trimRun 0 (kindsOf (ls @ structural (hd (addTieIn u)) KJump i c # addTieIn u)) = Some 0"
        by (rule trimRun_jump_plain [OF a(1) _ p]) simp
      then show ?thesis using False ne by (simp add: withUnderlay_def Let_def openTrims_def)
    qed
  qed
qed

lemma openTrims_withMain:
  "openTrims ls \<Longrightarrow> plainKinds m \<Longrightarrow> openTrims (withMain cfg i c u ls m)"
proof -
  assume a: "openTrims ls" "plainKinds m"
  let ?m1 = "if u = [] then addTieIn m else m"
  let ?main = "addTieOff ?m1"
  have p: "plainKinds ?m1" using a by (simp add: plainKinds_addTieIn)
  show ?thesis
  proof (cases "m = []")
    case True
    then show ?thesis using a by (simp add: withMain_def)
  next
    case False
    show ?thesis
    proof (cases "ls = []")
      case True
      have "openTrims ([] @ ?main)" by (rule openTrims_addTieOff_after [OF _ p]) simp
      then show ?thesis using False True by (simp add: withMain_def Let_def)
    next
      case ne: False
      let ?j = "structural (hd ?main) KJump i c"
      let ?t = "structural (last ls) KTrim i c"
      have 1: "trimRun 0 (kindsOf (ls @ [?j])) = Some 0"
        using trimRun_jump_plain [OF a(1), of ?j "[]"] by simp
      have 2: "trimRun 0 (kindsOf (ls @ [?t, ?j])) = Some 0"
        using trimRun_trim_jump_plain [OF a(1), of ?t ?j "[]"] by simp
      have "openTrims ((ls @ [?j]) @ ?main)" by (rule openTrims_addTieOff_after [OF 1 p])
      moreover have "openTrims ((ls @ [?t, ?j]) @ ?main)" by (rule openTrims_addTieOff_after [OF 2 p])
      ultimately show ?thesis using False ne by (simp add: withMain_def Let_def)
    qed
  qed
qed

lemma openTrims_pathStep: "openTrims ls \<Longrightarrow> pathStep cfg i c ls p = Some (Inr ls') \<Longrightarrow> openTrims ls'"
  by (auto simp: pathStep_def split: option.splits sum.splits
      intro!: openTrims_withMain openTrims_withUnderlay dest: plainKinds_underlay plainKinds_main)

lemma openTrims_joinLayer: "openTrims all \<Longrightarrow> openTrims ls \<Longrightarrow> openTrims (joinLayer i c all ls)"
  by (auto simp: joinLayer_def openTrims_def trimRun_append)

lemma openTrims_layerStep: "openTrims all \<Longrightarrow> layerStep cfg all il = Some (Inr all') \<Longrightarrow> openTrims all'"
proof -
  assume a: "openTrims all" and s: "layerStep cfg all il = Some (Inr all')"
  from s obtain ls where
    f: "foldResult (pathStep cfg (fst il) (layerColor (snd il))) [] (layerPaths (snd il)) = Some (Inr ls)"
    and e: "all' = joinLayer (fst il) (layerColor (snd il)) all ls"
    by (auto simp: layerStep_def split: option.splits sum.splits)
  have "openTrims ls"
    by (rule foldResult_invariant [where P = openTrims, OF _ _ f]) (auto dest: openTrims_pathStep)
  with a e show ?thesis by (simp add: openTrims_joinLayer)
qed

lemma openTrims_layers:
  "foldResult (layerStep cfg) [] ils = Some (Inr all) \<Longrightarrow> openTrims all"
  by (rule foldResult_invariant [where P = openTrims and s = "[]"]) (auto dest: openTrims_layerStep)

lemma trimRun_smallLoop:
  "trimRun n (kindsOf xs) = Some k \<Longrightarrow> trimRun n (kindsOf (smallLoop m p xs)) = Some k"
proof (induction xs arbitrary: n p)
  case Nil
  then show ?case by simp
next
  case (Cons x xs)
  then show ?case by (auto split: if_splits)
qed

lemma kinds_Record: "map entryKind (map Record xs) = kindsOf xs"
  by (simp add: kindsOf_def)

lemma trimsFollowed_finish:
  assumes "openTrims all"
  shows "trimsFollowed 0 (map entryKind (finishDesign cfg all))"
proof (cases all)
  case Nil
  then show ?thesis by (simp add: finishDesign_def removeSmallStitches_def endOf_def)
next
  case (Cons s rest)
  let ?c = "s # smallLoop (minStitchLengthMm cfg) s rest"
  have "trimRun 0 (kindsOf (s # rest)) = Some 0 \<or> trimRun 0 (kindsOf (s # rest)) = Some 1"
    using assms Cons by (simp add: openTrims_def)
  then have "trimRun 0 (kindsOf ?c) = Some 0 \<or> trimRun 0 (kindsOf ?c) = Some 1"
    by (auto split: if_splits dest: trimRun_smallLoop)
  then have "trimRun 0 (kindsOf ?c @ [Some KEnd]) = Some 0"
    by (auto simp: trimRun_append)
  moreover have "map entryKind (finishDesign cfg all) = kindsOf ?c @ [Some KEnd]"
    using Cons by (simp add: finishDesign_def removeSmallStitches_def Let_def kindsOf_def)
  ultimately show ?thesis by (simp add: trimsFollowed_run)
qed

text \<open>
  Claim C3, as amended. In every sequence that \<open>digitizeDesign\<close> returns, every trim
  is followed at once by a jump, a colour change or the end, or by one second trim that is
  itself followed at once by a jump; a trim is never followed by a stitch and never ends
  the sequence.
\<close>

theorem digitizeDesign_trims:
  assumes "digitizeDesign layers config = Some (Inr r)"
  shows "trimsFollowed 0 (map entryKind r)"
proof -
  from assms obtain all where
    f: "foldResult (layerStep config) [] (zip [0..<length layers] layers) = Some (Inr all)"
    and r: "r = finishDesign config all"
    by (auto simp: digitizeDesign_def split: option.splits sum.splits)
  show ?thesis unfolding r by (rule trimsFollowed_finish [OF openTrims_layers [OF f]])
qed

lemma running_two_points:
  "\<bar>a - b\<bar> > 0.01 \<Longrightarrow> \<bar>a - b\<bar> \<le> runLength cfg \<Longrightarrow>
   generateRunningStitches [mkPoint a 0, mkPoint b 0] cfg 0 ''#000000''
     = [rowStitch a KStitch None, rowStitch b KStitch None]"
  by (simp add: generateRunningStitches_def cleanPath_def cleanStep_def dist_pt_horizontal
      runSegment_def Let_def genStitch_def rowStitch_def)

lemma pathStep_first:
  "plainRunning cfg \<Longrightarrow>
   pathStep cfg 0 ''#000000'' [] [mkPoint 0 0, mkPoint 1 0] =
     Some (Inr [rowStitch (1 / 2) KStitch (Some True), rowStitch 0 KStitch (Some True),
                rowStitch 0 KStitch None, rowStitch 1 KStitch None,
                rowStitch (1 / 2) KStitch (Some True), rowStitch 1 KStitch (Some True),
                rowStitch 1 KTrim (Some True)])"
  by (simp add: plainRunning_def pathStep_def generateUnderlay_def mainStitches_def running_two_points
      withUnderlay_def withMain_def addTieIn_def addTieOff_def tieStitch_def Let_def rowStitch_def)

lemma pathStep_second:
  "plainRunning cfg \<Longrightarrow>
   pathStep cfg 0 ''#000000''
     [rowStitch (1 / 2) KStitch (Some True), rowStitch 0 KStitch (Some True),
      rowStitch 0 KStitch None, rowStitch 1 KStitch None,
      rowStitch (1 / 2) KStitch (Some True), rowStitch 1 KStitch (Some True),
      rowStitch 1 KTrim (Some True)]
     [mkPoint 10 0, mkPoint 11 0] = Some (Inr twoPathStitches)"
  by (simp add: plainRunning_def pathStep_def generateUnderlay_def mainStitches_def running_two_points
      withUnderlay_def withMain_def addTieIn_def addTieOff_def tieStitch_def structural_def Let_def
      rowStitch_def dist_pt_horizontal twoPathStitches_def)

lemma layers_twoPath:
  "plainRunning cfg \<Longrightarrow>
   foldResult (layerStep cfg) [] (zip [0..<length twoPathLayers] twoPathLayers)
     = Some (Inr twoPathStitches)"
  by (simp add: twoPathLayers_def layerStep_def pathStep_first pathStep_second joinLayer_def)

lemma finish_twoPath: "plainRunning cfg \<Longrightarrow> finishDesign cfg twoPathStitches = twoPathDesign"
  by (simp add: plainRunning_def finishDesign_def removeSmallStitches_def Let_def endOf_def
      twoPathDesign_def twoPathStitches_def rowStitch_def dist_pt_horizontal)

lemma digitize_twoPath:
  "plainRunning cfg \<Longrightarrow> digitizeDesign twoPathLayers cfg = Some (Inr twoPathDesign)"
  by (simp add: digitizeDesign_def layers_twoPath finish_twoPath)

lemma plainRunning_base: "plainRunning baseConfig"
  by (simp add: plainRunning_def baseConfig_def runLength_def)

lemma plainRunning_zero: "plainRunning zeroConfig"
  by (simp add: plainRunning_def zeroConfig_def baseConfig_def runLength_def)

lemma digitize_empty: "digitizeDesign [] cfg = Some (Inr [Undefined, TypeOnly KEnd])"
  by (simp add: digitizeDesign_def finishDesign_def removeSmallStitches_def endOf_def)

theorem digitizeDesign_one_end_witness:
  "digitizeDesign twoPathLayers baseConfig = Some (Inr twoPathDesign)
   \<and> twoPathDesign \<noteq> [] \<and> entryKind (last twoPathDesign) = Some KEnd
   \<and> length (filter (\<lambda>e. entryKind e = Some KEnd) twoPathDesign) = 1"
  using digitizeDesign_one_end [OF digitize_twoPath [OF plainRunning_base]]
        digitize_twoPath [OF plainRunning_base]
  by simp

theorem digitizeDesign_trims_witness:
  "digitizeDesign twoPathLayers baseConfig = Some (Inr twoPathDesign)
   \<and> trimsFollowed 0 (map entryKind twoPathDesign)"
  using digitizeDesign_trims [OF digitize_twoPath [OF plainRunning_base]]
        digitize_twoPath [OF plainRunning_base]
  by simp

text \<open>
  Claim C3 as stated fails where two paths of a layer are further apart than
  \<open>trim_jump_distance_mm\<close>: the trim that ends the tie-off of the first path is followed
  by the trim the composer puts before its jump.
\<close>

theorem digitizeDesign_trims_counterexample:
  "digitizeDesign twoPathLayers baseConfig = Some (Inr twoPathDesign)
   \<and> entryKind (twoPathDesign ! 6) = Some KTrim
   \<and> entryKind (twoPathDesign ! 7) = Some KTrim"
  using digitize_twoPath [OF plainRunning_base]
  by (simp add: twoPathDesign_def rowStitch_def)

subsection \<open>When the pipeline returns\<close>

text \<open>
  The resampling of the satin generator and the row loop of the tatami generator end
  when the density is positive, and the underlay always uses a density of 2 mm; so
  \<open>digitizeDesign\<close> returns a sequence for every running configuration, for every
  satin configuration with a positive density, and for every tatami configuration with a
  positive density whose paths all have a point.
\<close>

lemma tatamiRows_total:
  assumes d: "0 < densityMm cfg"
  shows "\<exists>r. tatamiRows cfg c h a edges hi y ss = Some r"
proof (induction "nat \<lceil>(hi - y) / densityMm cfg\<rceil>" arbitrary: y ss)
  case 0
  then have "(hi - y) / densityMm cfg \<le> 0" by (simp add: ceiling_le_iff)
  then have "\<not> y < hi" using d by (simp add: divide_le_0_iff)
  then show ?case by (subst tatamiRows.simps) simp
next
  case (Suc n)
  show ?case
  proof (cases "y < hi")
    case False
    then show ?thesis by (subst tatamiRows.simps) simp
  next
    case True
    have "(hi - (y + densityMm cfg)) / densityMm cfg = (hi - y) / densityMm cfg - 1"
      using d by (simp add: field_simps)
    then have "\<lceil>(hi - (y + densityMm cfg)) / densityMm cfg\<rceil> = \<lceil>(hi - y) / densityMm cfg\<rceil> - 1"
      by simp
    then have "n = nat \<lceil>(hi - (y + densityMm cfg)) / densityMm cfg\<rceil>"
      using Suc.hyps(2) by simp
    from Suc.hyps(1) [OF this] obtain r where
      "tatamiRows cfg c h a edges hi (y + densityMm cfg) (tatamiRow cfg c h a edges y ss) = Some r"
      by blast
    then show ?thesis using True by (subst tatamiRows.simps) simp
  qed
qed

lemma length_offsetPolygon [simp]: "length (offsetPolygon p d) = length p"
  by (simp add: offsetPolygon_def)

lemma offsetPolygon_Nil [simp]: "offsetPolygon p d = [] \<longleftrightarrow> p = []"
  using length_offsetPolygon [of p d] by (metis length_0_conv)

lemma generateTatami_returns:
  assumes "0 < densityMm cfg" "[] \<notin> set ps"
  shows "\<exists>ss. generateTatamiStitches ps cfg c h = Some (Inr ss)"
proof (cases "ps = []")
  case True
  then show ?thesis by (simp add: generateTatamiStitches_def)
next
  case False
  let ?rot = "map (map (\<lambda>p. rotatePoint p (- tatamiAngle cfg * (pi / 180))))
                (map (\<lambda>p. offsetPolygon p (pullCompensationMm cfg)) ps)"
  have ne: "[] \<notin> set ?rot"
  proof
    assume "[] \<in> set ?rot"
    then have "[] \<in> set ps" by auto
    then show False using assms(2) by simp
  qed
  show ?thesis
  proof (cases "foldl lowerReal None (map py (concat ?rot))")
    case None
    then show ?thesis using False ne
      by (simp add: generateTatamiStitches_def Let_def del: set_map map_map)
  next
    case lo: (Some lo)
    show ?thesis
    proof (cases "foldl upperReal None (map py (concat ?rot))")
      case None
      then show ?thesis using False ne lo
        by (simp add: generateTatamiStitches_def Let_def del: set_map map_map)
    next
      case hi: (Some hi)
      obtain r where "tatamiRows cfg c h (- (- tatamiAngle cfg * (pi / 180)))
           (concat (map pathEdges ?rot)) hi (lo + densityMm cfg) [] = Some r"
        using tatamiRows_total [OF assms(1)] by blast
      then show ?thesis using False ne lo hi
        by (simp add: generateTatamiStitches_def Let_def del: set_map map_map)
    qed
  qed
qed


lemma generateSatin_returns:
  "0 < densityMm cfg \<Longrightarrow> \<exists>ss. generateSatinStitches p cfg c h = Some ss"
  using resamplePath_total [of "densityMm cfg" p]
  by (auto simp: generateSatinStitches_def satinPairs_def)

lemma generateUnderlay_returns: "\<exists>ss. generateUnderlay p cfg c h = Some ss"
proof -
  let ?cfg = "cfg\<lparr>satinColumnWidthMm := (satinColumnWidthMm cfg / 2 - 0.4) * 2, densityMm := 2.0,
                    pullCompensationMm := 0\<rparr>"
  obtain ss where "generateSatinStitches p ?cfg c h = Some ss"
    using generateSatin_returns [of ?cfg p c h] by auto
  then show ?thesis by (simp add: generateUnderlay_def Let_def)
qed

lemma mainStitches_returns:
  assumes "stitchType cfg \<noteq> Running \<Longrightarrow> 0 < densityMm cfg"
    and "stitchType cfg = Tatami \<Longrightarrow> p \<noteq> []"
  shows "\<exists>ss. mainStitches p cfg c h = Some (Inr ss)"
proof (cases "stitchType cfg")
  case Running
  then show ?thesis by (simp add: mainStitches_def)
next
  case Satin
  then obtain ss where "generateSatinStitches p cfg c h = Some ss"
    using generateSatin_returns [of cfg p c h] assms(1) by auto
  then show ?thesis using Satin by (simp add: mainStitches_def)
next
  case Tatami
  then have "[] \<notin> set [p]" using assms(2) by simp
  moreover have "0 < densityMm cfg" using Tatami assms(1) by simp
  ultimately obtain ss where "generateTatamiStitches [p] cfg c h = Some (Inr ss)"
    using generateTatami_returns by blast
  then show ?thesis using Tatami by (simp add: mainStitches_def)
qed

lemma pathStep_returns:
  assumes "stitchType cfg \<noteq> Running \<Longrightarrow> 0 < densityMm cfg"
    and "stitchType cfg = Tatami \<Longrightarrow> p \<noteq> []"
  shows "\<exists>ls'. pathStep cfg i c ls p = Some (Inr ls')"
proof -
  obtain u where "generateUnderlay p cfg i c = Some u" using generateUnderlay_returns by blast
  moreover obtain m where "mainStitches p cfg i c = Some (Inr m)"
    using mainStitches_returns [OF assms] by blast
  ultimately show ?thesis by (simp add: pathStep_def)
qed

lemma foldResult_returns:
  assumes "\<And>s a. a \<in> set as \<Longrightarrow> \<exists>s'. f s a = Some (Inr s')"
  shows "\<exists>r. foldResult f s as = Some (Inr r)"
  using assms
proof (induction as arbitrary: s)
  case Nil
  show ?case by simp
next
  case (Cons a as)
  from Cons.prems [of a s] obtain s' where "f s a = Some (Inr s')" by auto
  moreover have "\<exists>r. foldResult f s' as = Some (Inr r)"
    by (rule Cons.IH) (simp add: Cons.prems)
  ultimately show ?case by simp
qed

lemma layerStep_returns:
  assumes "stitchType cfg \<noteq> Running \<Longrightarrow> 0 < densityMm cfg"
    and "stitchType cfg = Tatami \<Longrightarrow> [] \<notin> set (layerPaths (snd il))"
  shows "\<exists>all'. layerStep cfg all il = Some (Inr all')"
proof -
  have "\<exists>r. foldResult (pathStep cfg (fst il) (layerColor (snd il))) [] (layerPaths (snd il))
              = Some (Inr r)"
  proof (rule foldResult_returns)
    fix s a
    assume a: "a \<in> set (layerPaths (snd il))"
    show "\<exists>s'. pathStep cfg (fst il) (layerColor (snd il)) s a = Some (Inr s')"
    proof (rule pathStep_returns [OF assms(1)])
      assume "stitchType cfg = Tatami"
      then show "a \<noteq> []" using assms(2) a by auto
    qed
  qed
  then show ?thesis by (auto simp: layerStep_def)
qed

lemma digitizeDesign_returns:
  assumes "stitchType config \<noteq> Running \<Longrightarrow> 0 < densityMm config"
    and "stitchType config = Tatami \<Longrightarrow> \<forall>l \<in> set layers. [] \<notin> set (layerPaths l)"
  shows "\<exists>r. digitizeDesign layers config = Some (Inr r)"
proof -
  have "\<exists>all. foldResult (layerStep config) [] (zip [0..<length layers] layers) = Some (Inr all)"
  proof (rule foldResult_returns)
    fix s il
    assume a: "il \<in> set (zip [0..<length layers] layers)"
    show "\<exists>s'. layerStep config s il = Some (Inr s')"
    proof (rule layerStep_returns [OF assms(1)])
      assume t: "stitchType config = Tatami"
      have "snd il \<in> set layers" using a by (metis in_set_zipE prod.collapse)
      then show "[] \<notin> set (layerPaths (snd il))" using assms(2) [OF t] by blast
    qed
  qed
  then show ?thesis by (auto simp: digitizeDesign_def)
qed

text \<open>A tatami layer with a path that has no point: the closing edge of the path reads
  a coordinate of \<open>undefined\<close>.\<close>

lemma digitizeDesign_throws:
  "digitizeDesign emptyPathLayers tatamiConfig = Some (Inl TypeError)"
  by (simp add: emptyPathLayers_def digitizeDesign_def layerStep_def pathStep_def generateUnderlay_def
      mainStitches_def generateTatamiStitches_def tatamiConfig_def baseConfig_def Let_def
      offsetPolygon_def)

subsection \<open>No check of the configuration\<close>

text \<open>Where an error comes from: only from the tatami generator, and only for a path
  without points.\<close>

lemma generateTatami_error:
  assumes "generateTatamiStitches ps cfg c h = Some (Inl e)"
  shows "[] \<in> set ps"
proof (rule ccontr)
  assume n: "[] \<notin> set ps"
  show False
  proof (cases "0 < densityMm cfg")
    case True
    from generateTatami_returns [OF True n, of c h] assms show False by auto
  next
    case False
    let ?rot = "map (map (\<lambda>p. rotatePoint p (- tatamiAngle cfg * (pi / 180))))
                  (map (\<lambda>p. offsetPolygon p (pullCompensationMm cfg)) ps)"
    have ne: "[] \<notin> set ?rot"
    proof
      assume "[] \<in> set ?rot"
      then have "[] \<in> set ps" by auto
      then show False using n by simp
    qed
    from assms ne show False
      by (simp add: generateTatamiStitches_def Let_def split: if_splits option.splits
          del: set_map map_map)
  qed
qed

lemma mainStitches_error:
  "mainStitches p cfg c h = Some (Inl e) \<Longrightarrow> stitchType cfg = Tatami \<and> p = []"
  by (auto simp: mainStitches_def split: if_splits dest: generateTatami_error)

lemma pathStep_error:
  "pathStep cfg i c ls p = Some (Inl e) \<Longrightarrow> stitchType cfg = Tatami \<and> p = []"
  by (auto simp: pathStep_def split: option.splits sum.splits dest: mainStitches_error)

lemma foldResult_error:
  "foldResult f s as = Some (Inl e) \<Longrightarrow> \<exists>s' a. a \<in> set as \<and> f s' a = Some (Inl e)"
proof (induction as arbitrary: s)
  case Nil
  then show ?case by simp
next
  case (Cons a as)
  show ?case
  proof (cases "f s a")
    case None
    with Cons.prems show ?thesis by simp
  next
    case (Some r)
    show ?thesis
    proof (cases r)
      case (Inl e')
      with Some Cons.prems have "f s a = Some (Inl e)" by simp
      then show ?thesis by auto
    next
      case (Inr s')
      with Some Cons.prems have "foldResult f s' as = Some (Inl e)" by simp
      from Cons.IH [OF this] show ?thesis by auto
    qed
  qed
qed

lemma layerStep_error:
  assumes "layerStep cfg all il = Some (Inl e)"
  shows "stitchType cfg = Tatami \<and> [] \<in> set (layerPaths (snd il))"
proof -
  from assms have "foldResult (pathStep cfg (fst il) (layerColor (snd il))) [] (layerPaths (snd il))
      = Some (Inl e)"
    by (simp add: layerStep_def split: option.splits sum.splits)
  from foldResult_error [OF this] obtain s' p where
    "p \<in> set (layerPaths (snd il))" "pathStep cfg (fst il) (layerColor (snd il)) s' p = Some (Inl e)"
    by blast
  then show ?thesis using pathStep_error by blast
qed

lemma digitizeDesign_error:
  assumes "digitizeDesign layers config = Some (Inl e)"
  shows "stitchType config = Tatami \<and> (\<exists>l \<in> set layers. [] \<in> set (layerPaths l))"
proof -
  from assms have "foldResult (layerStep config) [] (zip [0..<length layers] layers) = Some (Inl e)"
    by (simp add: digitizeDesign_def split: option.splits sum.splits)
  from foldResult_error [OF this] obtain s' il where
    il: "il \<in> set (zip [0..<length layers] layers)" "layerStep config s' il = Some (Inl e)"
    by blast
  have "snd il \<in> set layers" using il(1) by (metis in_set_zipE prod.collapse)
  then show ?thesis using layerStep_error [OF il(2)] by blast
qed




section \<open>Properties of the encoders\<close>

declare dstSplit.simps [simp del] expSplit.simps [simp del]

lemma dstSplit_small: "\<bar>dx\<bar> \<le> MAX_STEP \<Longrightarrow> \<bar>dy\<bar> \<le> MAX_STEP \<Longrightarrow> dstSplit dx dy st = (dx, dy, st)"
  by (subst dstSplit.simps) simp

lemma dstSplit_count:
  "dstSplit dx dy st = (dx', dy', st') \<Longrightarrow> stitchCount st = length (bodyParts st) \<Longrightarrow>
   stitchCount st' = length (bodyParts st')"
proof (induction dx dy st rule: dstSplit.induct)
  case (1 dx dy st)
  show ?case
  proof (cases "\<bar>dx\<bar> > MAX_STEP \<or> \<bar>dy\<bar> > MAX_STEP")
    case True
    with "1.prems" show ?thesis
      by (subst (asm) dstSplit.simps) (auto simp: Let_def intro!: "1.IH" [OF True refl refl])
  next
    case False
    with "1.prems" show ?thesis by (subst (asm) dstSplit.simps) auto
  qed
qed

lemma dstStep_count:
  "stitchCount st = length (bodyParts st) \<Longrightarrow>
   stitchCount (dstStep st s) = length (bodyParts (dstStep st s))"
  by (auto simp: dstStep_def Let_def split: prod.splits dest!: dstSplit_count)

lemma foldl_dstStep_count:
  "stitchCount st = length (bodyParts st) \<Longrightarrow>
   stitchCount (foldl dstStep st ss) = length (bodyParts (foldl dstStep st ss))"
  by (induction ss arbitrary: st) (simp_all add: dstStep_count)

lemma dstLoop_count: "stitchCount (dstLoop ss) = length (bodyParts (dstLoop ss))"
  unfolding dstLoop_def by (rule foldl_dstStep_count) (simp add: dstInit_def)

lemma length_writeString [simp]: "length (writeString s off h) = length h"
  by (induction s off h rule: writeString.induct) simp_all

lemma nth_writeString:
  "i < length h \<Longrightarrow> writeString s off h ! i = (if off \<le> i \<and> i < off + length s then s ! (i - off) else h ! i)"
proof (induction s off h rule: writeString.induct)
  case (1 off h)
  then show ?case by auto
next
  case (2 c cs off h)
  then show ?case
    by (auto simp: nth_list_update nth_Cons' )
qed

lemma field_writeString:
  "length s = n \<Longrightarrow> off + n \<le> length h \<Longrightarrow> take n (drop off (writeString s off h)) = s"
  by (rule nth_equalityI) (auto simp add: nth_writeString)

lemma field_keep:
  "off + n \<le> off' \<Longrightarrow> off + n \<le> length h \<Longrightarrow>
   take n (drop off (writeString s off' h)) = take n (drop off h)"
  by (rule nth_equalityI) (auto simp add: nth_writeString)

lemma length_orAt [simp]: "length (orAt b i m) = length b"
  by (simp add: orAt_def)

lemma length_takeGe [simp]: "length (fst (takeGe w i m st)) = length (fst st)"
  by (simp add: takeGe_def split: prod.splits)

lemma length_takeLe [simp]: "length (fst (takeLe w i m st)) = length (fst st)"
  by (simp add: takeLe_def split: prod.splits)

lemma length_encodeTajimaStitch [simp]: "length (encodeTajimaStitch dx dy t) = 3"
  by (simp add: encodeTajimaStitch_def Let_def)

lemma dstSplit_records:
  "dstSplit dx dy st = (dx', dy', st') \<Longrightarrow> \<forall>r \<in> set (bodyParts st). length r = 3 \<Longrightarrow>
   \<forall>r \<in> set (bodyParts st'). length r = 3"
proof (induction dx dy st rule: dstSplit.induct)
  case (1 dx dy st)
  show ?case
  proof (cases "\<bar>dx\<bar> > MAX_STEP \<or> \<bar>dy\<bar> > MAX_STEP")
    case True
    let ?st = "st\<lparr>bodyParts := bodyParts st @
                 [encodeTajimaStitch (clampStep MAX_STEP dx) (clampStep MAX_STEP dy) TJump],
                 currentX := currentX st + clampStep MAX_STEP dx,
                 currentY := currentY st + clampStep MAX_STEP dy,
                 stitchCount := stitchCount st + 1\<rparr>"
    have e: "dstSplit (dx - clampStep MAX_STEP dx) (dy - clampStep MAX_STEP dy) ?st = (dx', dy', st')"
      using "1.prems"(1) True by (subst (asm) dstSplit.simps) (simp add: Let_def)
    have "\<forall>r \<in> set (bodyParts ?st). length r = 3" using "1.prems"(2) by simp
    from "1.IH" [OF True refl refl e this] show ?thesis .
  next
    case False
    with "1.prems" show ?thesis by (subst (asm) dstSplit.simps) auto
  qed
qed

lemma dstStep_records:
  assumes "\<forall>r \<in> set (bodyParts st). length r = 3"
  shows "\<forall>r \<in> set (bodyParts (dstStep st s)). length r = 3"
proof (cases "stype s = KEnd")
  case True
  then show ?thesis using assms by (simp add: dstStep_def)
next
  case False
  let ?st1 = "st\<lparr>minX := lowerBound (jsRound (px s * 10)) (minX st),
                   maxX := upperBound (jsRound (px s * 10)) (maxX st),
                   minY := lowerBound (jsRound (py s * 10)) (minY st),
                   maxY := upperBound (jsRound (py s * 10)) (maxY st)\<rparr>"
  obtain dx' dy' st2 where
    e: "dstSplit (jsRound (px s * 10) - currentX st) (jsRound (py s * 10) - currentY st) ?st1
          = (dx', dy', st2)"
    by (metis prod_cases3)
  have "\<forall>r \<in> set (bodyParts ?st1). length r = 3" using assms by simp
  from dstSplit_records [OF e this] show ?thesis
    using False e by (simp add: dstStep_def Let_def)
qed

lemma foldl_dstStep_records:
  "\<forall>r \<in> set (bodyParts st). length r = 3 \<Longrightarrow>
   \<forall>r \<in> set (bodyParts (foldl dstStep st ss)). length r = 3"
proof (induction ss arbitrary: st)
  case Nil
  then show ?case by simp
next
  case (Cons a ss)
  from Cons.IH [OF dstStep_records [OF Cons.prems]] show ?case by simp
qed

lemma length_concat_records:
  "\<forall>r \<in> set rs. length r = 3 \<Longrightarrow> length (concat rs) = 3 * length rs"
  by (induction rs) simp_all

lemma dstBody_records: "\<forall>r \<in> set (dstBody ss). length r = 3"
  using foldl_dstStep_records [of dstInit ss]
  by (simp add: dstBody_def dstLoop_def dstInit_def)

lemma length_digitsOf: "0 < k \<Longrightarrow> n < 10 ^ k \<Longrightarrow> length (digitsOf n) \<le> k"
proof (induction k arbitrary: n)
  case 0
  then show ?case by simp
next
  case (Suc k)
  show ?case
  proof (cases "n < 10")
    case True
    then show ?thesis by simp
  next
    case False
    then have k: "0 < k" using Suc.prems by (cases k) auto
    have "n div 10 < 10 ^ k" using Suc.prems by (simp add: less_mult_imp_div_less mult.commute)
    from Suc.IH [OF k this] False show ?thesis
      by (subst digitsOf.simps) simp
  qed
qed

lemma length_dstHeader [simp]: "length (dstHeader ss) = 512"
  by (simp add: dstHeader_def Let_def)

lemma length_stField: "stitchCount (dstLoop ss) < 10 ^ 7 \<Longrightarrow> length (stField ss) = 10"
  using length_digitsOf [of 7 "stitchCount (dstLoop ss)"]
  by (simp add: stField_def padStart_def toString_def)

lemma stField_in_header:
  assumes "length (stField ss) = 10"
  shows "take 10 (drop 23 (dstHeader ss)) = stField ss"
  unfolding dstHeader_def Let_def
  by (simp add: field_keep field_writeString assms del: writeString.simps)

text \<open>
  Claim C4. For every stitch list, the counter written into the \<open>ST\<close> field of the
  header is the number of three-byte body records minus one: the end-of-file record is not
  counted, every other record is, the jump records of a split oversize move included.
  The field is the string stored at offset 23; while the count has at most seven digits
  it is what bytes 23 to 32 of the header hold.
\<close>

theorem dst_header_stitch_count:
  "stitchCount (dstLoop ss) + 1 = length (dstBody ss)
   \<and> stField ss = ''ST:'' @ padStart 7 CHR ''0'' (toString (int (length (dstBody ss)) - 1))
   \<and> length (createDstFile ss) = 512 + 3 * length (dstBody ss)
   \<and> (length (dstBody ss) \<le> 10 ^ 7 \<longrightarrow> take 10 (drop 23 (dstHeader ss)) = stField ss)"
proof -
  have c: "stitchCount (dstLoop ss) + 1 = length (dstBody ss)"
    by (simp add: dstBody_def dstLoop_count)
  have f: "stField ss = ''ST:'' @ padStart 7 CHR ''0'' (toString (int (length (dstBody ss)) - 1))"
    using c by (simp add: stField_def dstBody_def)
  have l: "length (createDstFile ss) = 512 + 3 * length (dstBody ss)"
    by (simp add: createDstFile_def length_concat_records [OF dstBody_records])
  have h: "take 10 (drop 23 (dstHeader ss)) = stField ss" if "length (dstBody ss) \<le> 10 ^ 7"
    using that c by (intro stField_in_header length_stField) simp
  from c f l h show ?thesis by blast
qed


lemma dstLoop_S4:
  "dstLoop scenarioS4 = \<lparr>currentX = 50, currentY = - 32, minX = Some 0, maxX = Some 50,
     minY = Some (- 32), maxY = Some 0, stitchCount = 2,
     bodyParts = [[0, 0, 0], [0xAA, 0x4A, 0]]\<rparr>"
  by (simp add: scenarioS4_def dstLoop_def dstInit_def dstStep_def mkStitch_def jsRound_def
      Let_def dstSplit_small MAX_STEP_def lowerBound_def upperBound_def tajimaTypeOf_def
      encodeTajimaStitch_def takeGe_def takeLe_def orAt_def)


lemma toString_small [simp]:
  "toString 0 = ''0''" "toString 2 = ''2''" "toString 50 = ''50''" "toString 32 = ''32''"
  by (simp_all add: toString_def)

lemma stField_S4: "take 10 (drop 23 (dstHeader scenarioS4)) = ''ST:0000002''"
  unfolding dstHeader_def Let_def
  apply (simp add: field_keep field_writeString stField_def coField_def extentField_def
      dstLoop_S4 padStart_def del: writeString.simps)
  apply (simp add: eval_nat_numeral)
  done

lemma extents_S4:
  "take 8 (drop 54 (dstHeader scenarioS4)) = ''+X:00050''
   \<and> take 8 (drop 69 (dstHeader scenarioS4)) = ''-X:00000''
   \<and> take 8 (drop 84 (dstHeader scenarioS4)) = ''+Y:00000''
   \<and> take 8 (drop 99 (dstHeader scenarioS4)) = ''-Y:00032''"
  unfolding dstHeader_def Let_def
  apply (simp add: field_keep field_writeString stField_def coField_def extentField_def
      dstLoop_S4 posExtent_def negExtent_def padStart_def del: writeString.simps)
  apply (simp add: eval_nat_numeral)
  done

text \<open>
  Claim C5, as amended. For the list stitch(0,0), stitch(5.0,-3.2), end the header holds
  \<open>+X:00050\<close>, \<open>-X:00000\<close>, \<open>+Y:00000\<close>, \<open>-Y:00032\<close> and \<open>ST:0000002\<close>: the loop
  skips the end record, so two records are counted.
\<close>

theorem dst_header_S4:
  "take 10 (drop 23 (dstHeader scenarioS4)) = ''ST:0000002''
   \<and> take 8 (drop 54 (dstHeader scenarioS4)) = ''+X:00050''
   \<and> take 8 (drop 69 (dstHeader scenarioS4)) = ''-X:00000''
   \<and> take 8 (drop 84 (dstHeader scenarioS4)) = ''+Y:00000''
   \<and> take 8 (drop 99 (dstHeader scenarioS4)) = ''-Y:00032''"
  using stField_S4 extents_S4 by simp

text \<open>The header of claim C5 as the specification states it, with \<open>ST:0000003\<close>, is
  not the header that is written.\<close>

theorem dst_header_S4_counterexample:
  "\<not> (take 8 (drop 54 (dstHeader scenarioS4)) = ''+X:00050''
      \<and> take 8 (drop 69 (dstHeader scenarioS4)) = ''-X:00000''
      \<and> take 8 (drop 84 (dstHeader scenarioS4)) = ''+Y:00000''
      \<and> take 8 (drop 99 (dstHeader scenarioS4)) = ''-Y:00032''
      \<and> take 10 (drop 23 (dstHeader scenarioS4)) = ''ST:0000003'')"
  using stField_S4 by simp

lemma expSplit_zero [simp]: "expSplit k 0 0 st = st"
  by (subst expSplit.simps) simp

lemma expSplit_step:
  "dx \<noteq> 0 \<or> dy \<noteq> 0 \<Longrightarrow> expSplit k dx dy st =
     expSplit k (dx - clampStep EXP_MAX_STEP dx) (dy - clampStep EXP_MAX_STEP dy)
       ((if k = KJump
         then writeBytes [0x80, 0x04, word_of_int (clampStep EXP_MAX_STEP dx),
                          word_of_int (clampStep EXP_MAX_STEP dy)] st
         else writeBytes [word_of_int (clampStep EXP_MAX_STEP dx),
                          word_of_int (clampStep EXP_MAX_STEP dy)] st)
        \<lparr>expCurrentX := expCurrentX st + clampStep EXP_MAX_STEP dx,
         expCurrentY := expCurrentY st + clampStep EXP_MAX_STEP dy\<rparr>)"
  by (subst expSplit.simps) (simp add: Let_def writeBytes_def)

lemma expSplit_target:
  "expCurrentX (expSplit k dx dy st) = expCurrentX st + dx
   \<and> expCurrentY (expSplit k dx dy st) = expCurrentY st + dy"
proof (induction k dx dy st rule: expSplit.induct)
  case (1 k dx dy st)
  show ?case
  proof (cases "dx \<noteq> 0 \<or> dy \<noteq> 0")
    case True
    from "1.IH" [OF True refl refl refl] True show ?thesis
      by (subst (1 2) expSplit.simps) (simp add: Let_def writeBytes_def)
  next
    case False
    then show ?thesis by simp
  qed
qed

lemma exp_step_byte_roundtrip: "\<bar>v\<bar> \<le> 120 \<Longrightarrow> sint (word_of_int v :: byte) = v"
  by (simp add: signed_take_bit_int_eq_self_iff sint_sbintrunc') arith

lemma expStep_zero_delta:
  "stype s = KStitch \<Longrightarrow> jsRound (px s * 10) = expCurrentX st \<Longrightarrow>
   jsRound (py s * 10) = expCurrentY st \<Longrightarrow> expStep st s = st"
  by (simp add: expStep_def Let_def)

lemma dstStep_zero_delta:
  "stype s = KStitch \<Longrightarrow> jsRound (px s * 10) = currentX st \<Longrightarrow>
   jsRound (py s * 10) = currentY st \<Longrightarrow>
   bodyParts (dstStep st s) = bodyParts st @ [[0, 0, 0]]"
  by (simp add: dstStep_def Let_def dstSplit_small MAX_STEP_def tajimaTypeOf_def
      encodeTajimaStitch_def takeGe_def takeLe_def)

text \<open>
  Claim C10. A record of kind stitch whose rounded position is the position the EXP
  encoder is at adds no byte to the EXP output and leaves the encoder where it is, so the
  output is the one of the list without that record; the DST encoder, at the same
  position, appends the zero-delta record \<open>00 00 00\<close> for it.
\<close>

theorem exp_zero_delta_stitch_dropped:
  assumes "stype s = KStitch"
  shows "(jsRound (px s * 10) = expCurrentX (expLoop pre) \<and>
          jsRound (py s * 10) = expCurrentY (expLoop pre) \<longrightarrow>
            expLoop (pre @ [s]) = expLoop pre
          \<and> written (expLoop (pre @ s # post)) = written (expLoop (pre @ post)))
       \<and> (jsRound (px s * 10) = currentX (dstLoop pre) \<and>
          jsRound (py s * 10) = currentY (dstLoop pre) \<longrightarrow>
            bodyParts (dstLoop (pre @ [s])) = bodyParts (dstLoop pre) @ [[0, 0, 0]])"
  using assms
  by (simp add: expLoop_def dstLoop_def expStep_zero_delta dstStep_zero_delta)

theorem exp_zero_delta_stitch_dropped_witness:
  "stype (mkStitch 1 0 KStitch) = KStitch
   \<and> jsRound (px (mkStitch 1 0 KStitch) * 10) = expCurrentX (expLoop [mkStitch 1 0 KStitch])
   \<and> jsRound (py (mkStitch 1 0 KStitch) * 10) = expCurrentY (expLoop [mkStitch 1 0 KStitch])
   \<and> jsRound (px (mkStitch 1 0 KStitch) * 10) = currentX (dstLoop [mkStitch 1 0 KStitch])
   \<and> jsRound (py (mkStitch 1 0 KStitch) * 10) = currentY (dstLoop [mkStitch 1 0 KStitch])
   \<and> written (expLoop [mkStitch 1 0 KStitch, mkStitch 1 0 KStitch, mkStitch 1 0 KEnd])
       = [10, 0, 0x80, 0x01, 0, 0]
   \<and> createExpFile [mkStitch 1 0 KStitch, mkStitch 1 0 KStitch, mkStitch 1 0 KEnd]
       = [10, 0, 0x80, 0x01, 0, 0]
   \<and> bodyParts (dstLoop [mkStitch 1 0 KStitch, mkStitch 1 0 KStitch])
       = [[0xA0, 0, 0], [0, 0, 0]]"
  using exp_zero_delta_stitch_dropped
          [of "mkStitch 1 0 KStitch" "[mkStitch 1 0 KStitch]" "[mkStitch 1 0 KEnd]"]
  by (simp add: createExpFile_def expLoop_def expInit_def expStep_def dstLoop_def dstInit_def dstStep_def
      mkStitch_def jsRound_def Let_def expSplit_step EXP_MAX_STEP_def clampStep_def writeBytes_def
      dstSplit_small MAX_STEP_def lowerBound_def upperBound_def tajimaTypeOf_def
      encodeTajimaStitch_def takeGe_def takeLe_def orAt_def)

text \<open>
  Claim C1 asks that a record encoded for a delta within 121 decode to that delta.
  \<open>encodeTajimaStitch\<close> tests the weights in the order 1, 9, 3, 27, 81 and only ever
  subtracts a weight that fits, so for the delta \<open>(0, 2)\<close> it sets the bit of weight
  +1 alone: the record reads back as \<open>(0, 1)\<close>. The same record is the body of the file
  for the single stitch at \<open>(0, 0.2)\<close> mm.
\<close>

theorem dst_record_roundtrip_fails:
  "encodeTajimaStitch 0 2 TStitch = [0x01, 0, 0]
   \<and> decodeTajimaX (encodeTajimaStitch 0 2 TStitch) = 0
   \<and> decodeTajimaY (encodeTajimaStitch 0 2 TStitch) = 1
   \<and> dstBody [mkStitch 0 0.2 KStitch] = [[0x01, 0, 0], [0, 0, 0xC0]]"
  by (simp add: decodeTajimaX_def decodeTajimaY_def wbit_def dstBody_def dstLoop_def dstInit_def
      dstStep_def mkStitch_def jsRound_def Let_def dstSplit_small MAX_STEP_def lowerBound_def
      upperBound_def tajimaTypeOf_def encodeTajimaStitch_def takeGe_def takeLe_def orAt_def)

lemma dstSplit_step:
  "\<bar>dx\<bar> > MAX_STEP \<or> \<bar>dy\<bar> > MAX_STEP \<Longrightarrow> dstSplit dx dy st =
     dstSplit (dx - clampStep MAX_STEP dx) (dy - clampStep MAX_STEP dy)
             (st\<lparr>bodyParts := bodyParts st @
                    [encodeTajimaStitch (clampStep MAX_STEP dx) (clampStep MAX_STEP dy) TJump],
                 currentX := currentX st + clampStep MAX_STEP dx,
                 currentY := currentY st + clampStep MAX_STEP dy,
                 stitchCount := stitchCount st + 1\<rparr>)"
  by (subst dstSplit.simps) (simp add: Let_def)

lemma stitchCount_longJump: "stitchCount (dstLoop longJump) = 4"
  by (simp add: longJump_def dstLoop_def dstInit_def dstStep_def mkStitch_def jsRound_def
      Let_def dstSplit_small dstSplit_step clampStep_def MAX_STEP_def)

lemma stField_longJump: "stField longJump = ''ST:0000004''"
  by (simp add: stField_def stitchCount_longJump toString_def padStart_def eval_nat_numeral)

theorem dst_header_stitch_count_witness:
  "length (dstBody longJump) \<le> 10 ^ 7
   \<and> length (dstBody longJump) = 5
   \<and> take 10 (drop 23 (dstHeader longJump)) = ''ST:0000004''
   \<and> length (createDstFile longJump) = 527"
  using dst_header_stitch_count [of longJump]
  by (simp add: stitchCount_longJump stField_longJump)

end
